theory Spec2Isabelle
  imports Main "HOL-Library.AList"
begin

section \<open>Python primitives used by the native library downloader\<close>

text \<open>
  Strings are lists of characters (code points below 256). Text files are read the way
  Python 3 reads a file opened with \<^verbatim>\<open>open(path)\<close>: the line ends
  \<^verbatim>\<open>\r\n\<close> and \<^verbatim>\<open>\r\<close> arrive as \<^verbatim>\<open>\n\<close>, and
  \<^verbatim>\<open>readlines()\<close> cuts after every \<^verbatim>\<open>\n\<close>, keeping it.
  A dictionary is an association list in insertion order; \<open>AList.update\<close> overwrites the
  value of a key that is present (keeping its position) and appends a new key at the end.
\<close>

definition LF :: char where
  "LF = CHR 0x0A"

definition CR :: char where
  "CR = CHR 0x0D"

text \<open>\<^verbatim>\<open>str.isspace\<close> on one character: tab, line feed, vertical tab, form feed, carriage
  return, the separators 0x1c to 0x1f, space, 0x85 and 0xa0.\<close>

definition isspace :: "char \<Rightarrow> bool" where
  "isspace c \<longleftrightarrow> (of_char c :: nat) \<in> set [9, 10, 11, 12, 13, 28, 29, 30, 31, 32, 133, 160]"

text \<open>\<^verbatim>\<open>s.strip()\<close>: whitespace removed at both ends.\<close>

definition lstrip :: "string \<Rightarrow> string" where
  "lstrip s = dropWhile isspace s"

definition rstrip :: "string \<Rightarrow> string" where
  "rstrip s = rev (dropWhile isspace (rev s))"

definition strip :: "string \<Rightarrow> string" where
  "strip s = rstrip (lstrip s)"

text \<open>\<^verbatim>\<open>s.split(sep)\<close> for a separator of one character: the string is cut at every
  occurrence of the separator; the empty string gives one empty part.\<close>

fun str_split :: "char \<Rightarrow> string \<Rightarrow> string list" where
  "str_split sep [] = [[]]"
| "str_split sep (c # cs) =
     (if c = sep then [] # str_split sep cs
      else (case str_split sep cs of
              [] \<Rightarrow> [[c]]
            | w # ws \<Rightarrow> (c # w) # ws))"

text \<open>\<^verbatim>\<open>name.endswith(suffix)\<close>.\<close>

definition endswith :: "string \<Rightarrow> string \<Rightarrow> bool" where
  "endswith s suffix \<longleftrightarrow>
     length suffix \<le> length s \<and> drop (length s - length suffix) s = suffix"

text \<open>\<^verbatim>\<open>str(n)\<close> for a non-negative integer: its decimal digits.\<close>

function str :: "nat \<Rightarrow> string" where
  "str n = (if n < 10 then [''0123456789'' ! n]
            else str (n div 10) @ [''0123456789'' ! (n mod 10)])"
  by pat_completeness auto
termination
  by (relation "measure id") auto

declare str.simps [simp del]

text \<open>\<^verbatim>\<open>os.path.join(a, b)\<close> on a POSIX host.\<close>

definition os_path_join :: "string \<Rightarrow> string \<Rightarrow> string" where
  "os_path_join a b =
     (if b \<noteq> [] \<and> hd b = CHR ''/'' then b
      else if a = [] \<or> last a = CHR ''/'' then a @ b
      else a @ ''/'' @ b)"

text \<open>Universal newlines of a text file opened for reading.\<close>

fun universal_newlines :: "string \<Rightarrow> string" where
  "universal_newlines [] = []"
| "universal_newlines [c] = (if c = CR then [LF] else [c])"
| "universal_newlines (c # d # cs) =
     (if c = CR then
        (if d = LF then LF # universal_newlines cs
         else LF # universal_newlines (d # cs))
      else c # universal_newlines (d # cs))"

text \<open>\<^verbatim>\<open>fh.readlines()\<close>: the lines of the text, each with its line end.\<close>

fun readlines :: "string \<Rightarrow> string list" where
  "readlines [] = []"
| "readlines (c # cs) =
     (if c = LF then [c] # readlines cs
      else (case readlines cs of
              [] \<Rightarrow> [[c]]
            | l # ls \<Rightarrow> (c # l) # ls))"

section \<open>The data model\<close>

text \<open>\<^verbatim>\<open>NATIVE_LIBS_DIR_ON_DEVICE\<close> and \<^verbatim>\<open>self.build_id_list_file\<close>.\<close>

definition NATIVE_LIBS_DIR_ON_DEVICE :: string where
  "NATIVE_LIBS_DIR_ON_DEVICE = ''/data/local/tmp/native_libs/''"

definition build_id_list_file :: string where
  "build_id_list_file = ''build_id_list''"

text \<open>Class \<^verbatim>\<open>HostElfEntry\<close>. The score only takes the values 0 to 3.\<close>

record HostElfEntry =
  path :: string
  name :: string
  score :: nat

text \<open>
  The fields of \<^verbatim>\<open>NativeLibDownloader\<close> that change or steer the scan:
  \<^verbatim>\<open>need_archs\<close>, \<^verbatim>\<open>host_build_id_map\<close> (build id to entry),
  \<^verbatim>\<open>device_build_id_map\<close> (build id to name on the device) and
  \<^verbatim>\<open>name_count_map\<close> (file name to the number of entries created under it; the
  counters start at zero and are only ever incremented, so they are naturals).
\<close>

record NativeLibDownloader =
  need_archs :: "string list"
  host_build_id_map :: "(string \<times> HostElfEntry) list"
  device_build_id_map :: "(string \<times> string) list"
  name_count_map :: "(string \<times> nat) list"

text \<open>
  \<^verbatim>\<open>ReadElf\<close> lives in \<^verbatim>\<open>utils.py\<close>; the downloader only calls three of its
  methods, each a function of the path of the file. They are a parameter of the scan.
\<close>

record ReadElf =
  get_build_id :: "string \<Rightarrow> string"
  get_arch :: "string \<Rightarrow> string"
  get_sections :: "string \<Rightarrow> string list"

text \<open>
  What the downloader does to the outside world, in the order it does it: an
  \<^verbatim>\<open>adb\<close> command (its argument list), the writing of a local file (name and
  content), the removal of a local file.
\<close>

datatype effect =
    Adb "string list"
  | WriteFile string string
  | RemoveFile string

text \<open>\<^verbatim>\<open>log_exit\<close> after a failed \<^verbatim>\<open>adb\<close> command ends the program.\<close>

datatype error = AdbFailed "string list"

text \<open>The device: whether an \<^verbatim>\<open>adb\<close> command succeeds, given all that happened before.\<close>

type_synonym adb = "effect list \<Rightarrow> string list \<Rightarrow> bool"

text \<open>
  Modelled from the spec: \<^verbatim>\<open>AdbHelper.run\<close> and \<^verbatim>\<open>AdbHelper.check_run\<close> are in
  \<^verbatim>\<open>utils.py\<close>, outside the files modelled here. The remote transfer primitive
  executes a command "with a success/failure signal": \<open>run\<close> issues the command and returns
  the signal; \<open>check_run\<close> issues it and, on failure, aborts ("abort the sync and surface
  failure to the caller").
\<close>

definition run :: "adb \<Rightarrow> string list \<Rightarrow> effect list \<Rightarrow> bool \<times> effect list" where
  "run adb args tr = (adb tr args, tr @ [Adb args])"

definition check_run :: "adb \<Rightarrow> string list \<Rightarrow> effect list \<Rightarrow> (error + unit) \<times> effect list" where
  "check_run adb args tr =
     (case run adb args tr of
        (True, tr') \<Rightarrow> (Inr (), tr')
      | (False, tr') \<Rightarrow> (Inl (AdbFailed args), tr'))"

text \<open>The content of a file of the working directory after a sequence of effects
  (\<^verbatim>\<open>os.path.exists\<close> is \<open>local_file tr f \<noteq> None\<close>).\<close>

fun local_file :: "effect list \<Rightarrow> string \<Rightarrow> string option \<Rightarrow> string option" where
  "local_file [] f cur = cur"
| "local_file (Adb args # es) f cur = local_file es f cur"
| "local_file (WriteFile g c # es) f cur = local_file es f (if g = f then Some c else cur)"
| "local_file (RemoveFile g # es) f cur = local_file es f (if g = f then None else cur)"

section \<open>The host library scanner\<close>

text \<open>\<^verbatim>\<open>NativeLibDownloader._get_need_archs\<close>.\<close>

definition get_need_archs :: "string \<Rightarrow> string list" where
  "get_need_archs device_arch =
     (if device_arch = ''arm64'' then [''arm'', ''arm64'']
      else if device_arch = ''arm'' then [''arm'']
      else if device_arch = ''x86_64'' then [''x86'', ''x86_64'']
      else if device_arch = ''x86'' then [''x86'']
      else [])"

text \<open>\<^verbatim>\<open>NativeLibDownloader.__init__\<close>.\<close>

definition NativeLibDownloader_init :: "string \<Rightarrow> NativeLibDownloader" where
  "NativeLibDownloader_init device_arch =
     \<lparr>need_archs = get_need_archs device_arch,
      host_build_id_map = [],
      device_build_id_map = [],
      name_count_map = []\<rparr>"

text \<open>The score of a file, from its sections (\<^verbatim>\<open>add_native_lib_on_host\<close>, the
  \<^verbatim>\<open>if\<close>/\<^verbatim>\<open>elif\<close> chain).\<close>

definition sections_score :: "string list \<Rightarrow> nat" where
  "sections_score sections =
     (if ''.debug_info'' \<in> set sections then 3
      else if ''.gnu_debugdata'' \<in> set sections then 2
      else if ''.symtab'' \<in> set sections then 1
      else 0)"

text \<open>\<^verbatim>\<open>NativeLibDownloader.add_native_lib_on_host\<close>.\<close>

definition add_native_lib_on_host ::
  "ReadElf \<Rightarrow> string \<Rightarrow> string \<Rightarrow> NativeLibDownloader \<Rightarrow> NativeLibDownloader" where
  "add_native_lib_on_host readelf p n s =
     (let build_id = get_build_id readelf p in
      if build_id = [] then s
      else
        let arch = get_arch readelf p in
        if arch \<notin> set (need_archs s) then s
        else
          let sections = get_sections readelf p;
              sc = sections_score sections
          in (case map_of (host_build_id_map s) build_id of
                Some entry \<Rightarrow>
                  if score entry < sc
                  then s\<lparr>host_build_id_map :=
                           AList.update build_id (entry\<lparr>path := p, score := sc\<rparr>)
                             (host_build_id_map s)\<rparr>
                  else s
              | None \<Rightarrow>
                  let repeat_count =
                        (case map_of (name_count_map s) n of None \<Rightarrow> 0 | Some c \<Rightarrow> c);
                      unique_name =
                        (if repeat_count = 0 then n else n @ ''_'' @ str repeat_count)
                  in s\<lparr>name_count_map := AList.update n (repeat_count + 1) (name_count_map s),
                       host_build_id_map :=
                         AList.update build_id
                           \<lparr>path = p, name = unique_name, score = sc\<rparr>
                           (host_build_id_map s)\<rparr>))"

text \<open>
  \<^verbatim>\<open>NativeLibDownloader.collect_native_libs_on_host\<close>. The directory walk
  \<^verbatim>\<open>os.walk(native_lib_dir)\<close> is the list of its triples (directory, subdirectories,
  files), in the order it yields them.
\<close>

fun add_files ::
  "ReadElf \<Rightarrow> string \<Rightarrow> string list \<Rightarrow> NativeLibDownloader \<Rightarrow> NativeLibDownloader" where
  "add_files readelf root [] s = s"
| "add_files readelf root (n # files) s =
     add_files readelf root files
       (if \<not> endswith n ''.so'' then s
        else add_native_lib_on_host readelf (os_path_join root n) n s)"

fun walk_dirs ::
  "ReadElf \<Rightarrow> (string \<times> string list \<times> string list) list \<Rightarrow> NativeLibDownloader
     \<Rightarrow> NativeLibDownloader" where
  "walk_dirs readelf [] s = s"
| "walk_dirs readelf ((root, dirs, files) # rest) s =
     walk_dirs readelf rest (add_files readelf root files s)"

definition collect_native_libs_on_host ::
  "ReadElf \<Rightarrow> (string \<times> string list \<times> string list) list \<Rightarrow> NativeLibDownloader
     \<Rightarrow> NativeLibDownloader" where
  "collect_native_libs_on_host readelf walk s =
     walk_dirs readelf walk (s\<lparr>host_build_id_map := []\<rparr>)"

section \<open>The remote registry reader\<close>

text \<open>One turn of the loop over the lines of the build id list
  (\<^verbatim>\<open>collect_native_libs_on_device\<close>).\<close>

definition add_line :: "(string \<times> string) list \<Rightarrow> string \<Rightarrow> (string \<times> string) list" where
  "add_line m line0 =
     (let line = strip line0;
          items = str_split CHR ''='' line
      in if length items = 2 then AList.update (items ! 0) (items ! 1) m else m)"

text \<open>The whole loop, on the content of the pulled file, from the cleared map.\<close>

definition read_build_id_list :: "string \<Rightarrow> (string \<times> string) list" where
  "read_build_id_list content = foldl add_line [] (readlines (universal_newlines content))"

text \<open>
  \<^verbatim>\<open>NativeLibDownloader.collect_native_libs_on_device\<close>. What \<^verbatim>\<open>adb pull\<close>
  leaves in the working directory is the parameter \<open>pulled\<close>: the content of the device's
  build id list, or nothing when the device has none.
\<close>

definition collect_native_libs_on_device ::
  "adb \<Rightarrow> string option \<Rightarrow> NativeLibDownloader \<Rightarrow> effect list
     \<Rightarrow> (error + NativeLibDownloader) \<times> effect list" where
  "collect_native_libs_on_device adb pulled s tr =
     (let s1 = s\<lparr>device_build_id_map := []\<rparr> in
      case check_run adb [''shell'', ''mkdir'', ''-p'', NATIVE_LIBS_DIR_ON_DEVICE] tr of
        (Inl e, tr1) \<Rightarrow> (Inl e, tr1)
      | (Inr u, tr1) \<Rightarrow>
          let tr2 = (if local_file tr1 build_id_list_file None \<noteq> None
                     then tr1 @ [RemoveFile build_id_list_file] else tr1);
              tr3 = snd (run adb [''pull'', NATIVE_LIBS_DIR_ON_DEVICE @ build_id_list_file] tr2);
              tr4 = (case pulled of
                       None \<Rightarrow> tr3
                     | Some c \<Rightarrow> tr3 @ [WriteFile build_id_list_file c])
          in (case local_file tr4 build_id_list_file None of
                None \<Rightarrow> (Inr s1, tr4)
              | Some content \<Rightarrow>
                  (Inr (s1\<lparr>device_build_id_map := read_build_id_list content\<rparr>), tr4)))"

section \<open>The sync engine\<close>

text \<open>\<^verbatim>\<open>sync_natives_libs_on_device\<close>, first loop: push the libraries the device lacks.
  The loop runs over the keys of the host map; \<open>entry\<close> is the value stored under the key.\<close>

fun push_missing ::
  "adb \<Rightarrow> NativeLibDownloader \<Rightarrow> (string \<times> HostElfEntry) list \<Rightarrow> effect list
     \<Rightarrow> (error + unit) \<times> effect list" where
  "push_missing adb s [] tr = (Inr (), tr)"
| "push_missing adb s ((build_id, entry) # rest) tr =
     (if build_id \<notin> fst ` set (device_build_id_map s) then
        (case check_run adb
                [''push'', path entry, NATIVE_LIBS_DIR_ON_DEVICE @ name entry] tr of
           (Inl e, tr') \<Rightarrow> (Inl e, tr')
         | (Inr u, tr') \<Rightarrow> push_missing adb s rest tr')
      else push_missing adb s rest tr)"

text \<open>Second loop: remove from the device the libraries the host no longer has.\<close>

fun remove_stale ::
  "adb \<Rightarrow> NativeLibDownloader \<Rightarrow> (string \<times> string) list \<Rightarrow> effect list \<Rightarrow> effect list" where
  "remove_stale adb s [] tr = tr"
| "remove_stale adb s ((build_id, n) # rest) tr =
     (if build_id \<notin> fst ` set (host_build_id_map s) then
        remove_stale adb s rest
          (snd (run adb [''shell'', ''rm'', NATIVE_LIBS_DIR_ON_DEVICE @ n] tr))
      else remove_stale adb s rest tr)"

text \<open>Third loop: the lines written to the new build id list.\<close>

fun write_build_id_list :: "(string \<times> HostElfEntry) list \<Rightarrow> string \<Rightarrow> string" where
  "write_build_id_list [] fh = fh"
| "write_build_id_list ((build_id, entry) # rest) fh =
     write_build_id_list rest (fh @ build_id @ ''='' @ name entry @ [LF])"

text \<open>\<^verbatim>\<open>NativeLibDownloader.sync_natives_libs_on_device\<close>.\<close>

definition sync_natives_libs_on_device ::
  "adb \<Rightarrow> NativeLibDownloader \<Rightarrow> effect list \<Rightarrow> (error + unit) \<times> effect list" where
  "sync_natives_libs_on_device adb s tr =
     (case push_missing adb s (host_build_id_map s) tr of
        (Inl e, tr1) \<Rightarrow> (Inl e, tr1)
      | (Inr u, tr1) \<Rightarrow>
          let tr2 = remove_stale adb s (device_build_id_map s) tr1;
              tr3 = tr2 @ [WriteFile build_id_list_file
                             (write_build_id_list (host_build_id_map s) [])]
          in (case check_run adb
                     [''push'', build_id_list_file,
                      NATIVE_LIBS_DIR_ON_DEVICE @ build_id_list_file] tr3 of
                (Inl e, tr4) \<Rightarrow> (Inl e, tr4)
              | (Inr u', tr4) \<Rightarrow> (Inr (), tr4 @ [RemoveFile build_id_list_file])))"

section \<open>The manifest format, as the specification words it\<close>

text \<open>One record per line, \<^verbatim>\<open>build_id=name\<close>, each line ended by a newline.\<close>

definition manifest_format :: "(string \<times> string) list \<Rightarrow> string" where
  "manifest_format m = concat (map (\<lambda>(build_id, n). build_id @ ''='' @ n @ [LF]) m)"

text \<open>The build id to name mapping of a host registry.\<close>

definition registry_names :: "(string \<times> HostElfEntry) list \<Rightarrow> (string \<times> string) list" where
  "registry_names h = map (\<lambda>(build_id, entry). (build_id, name entry)) h"

section \<open>Vocabulary of the statements\<close>

text \<open>The command that pushes one library, and the command that removes one.\<close>

definition push_command :: "HostElfEntry \<Rightarrow> string list" where
  "push_command entry = [''push'', path entry, NATIVE_LIBS_DIR_ON_DEVICE @ name entry]"

definition rm_command :: "string \<Rightarrow> string list" where
  "rm_command n = [''shell'', ''rm'', NATIVE_LIBS_DIR_ON_DEVICE @ n]"

definition push_list_command :: "string list" where
  "push_list_command =
     [''push'', build_id_list_file, NATIVE_LIBS_DIR_ON_DEVICE @ build_id_list_file]"

text \<open>The host entries whose build id the device map lacks, and the device entries whose
  build id the host map lacks.\<close>

definition missing_on_device :: "NativeLibDownloader \<Rightarrow> (string \<times> HostElfEntry) list" where
  "missing_on_device s =
     filter (\<lambda>(build_id, entry). build_id \<notin> fst ` set (device_build_id_map s))
       (host_build_id_map s)"

definition stale_on_device :: "NativeLibDownloader \<Rightarrow> (string \<times> string) list" where
  "stale_on_device s =
     filter (\<lambda>(build_id, n). build_id \<notin> fst ` set (host_build_id_map s))
       (device_build_id_map s)"

text \<open>The counter of a file name (\<^verbatim>\<open>name_count_map.get(name, 0)\<close>) and the name built
  from a file name and a counter.\<close>

definition repeat_count_of :: "NativeLibDownloader \<Rightarrow> string \<Rightarrow> nat" where
  "repeat_count_of s n = (case map_of (name_count_map s) n of None \<Rightarrow> 0 | Some c \<Rightarrow> c)"

definition unique_name_of :: "string \<Rightarrow> nat \<Rightarrow> string" where
  "unique_name_of n k = (if k = 0 then n else n @ ''_'' @ str k)"

section \<open>Example inputs\<close>

text \<open>Devices: one on which every command succeeds, one on which only pushes succeed
  (every \<^verbatim>\<open>rm\<close> fails), one on which every command fails.\<close>

definition adb_always_ok :: adb where
  "adb_always_ok tr args = True"

definition adb_only_push :: adb where
  "adb_only_push tr args = (args \<noteq> [] \<and> hd args = ''push'')"

definition adb_never_ok :: adb where
  "adb_never_ok tr args = False"

text \<open>The device holds \<^verbatim>\<open>B1\<close> as \<^verbatim>\<open>lib1.so\<close>, the host has \<^verbatim>\<open>B2\<close> as
  \<^verbatim>\<open>lib2.so\<close>.\<close>

definition lib2_entry :: HostElfEntry where
  "lib2_entry = \<lparr>path = ''/libs/lib2.so'', name = ''lib2.so'', score = 0\<rparr>"

definition sync_scenario :: NativeLibDownloader where
  "sync_scenario =
     \<lparr>need_archs = [''arm'', ''arm64''],
      host_build_id_map = [(''B2'', lib2_entry)],
      device_build_id_map = [(''B1'', ''lib1.so'')],
      name_count_map = [(''lib2.so'', 1)]\<rparr>"

text \<open>A tool that reports the build id \<^verbatim>\<open>A1\<close> and the architecture \<^verbatim>\<open>arm64\<close> for
  every file, and full debug information only below \<^verbatim>\<open>/libs/subdir\<close>.\<close>

definition readelf_foo :: ReadElf where
  "readelf_foo =
     \<lparr>get_build_id = (\<lambda>p. ''A1''),
      get_arch = (\<lambda>p. ''arm64''),
      get_sections = (\<lambda>p. if p = ''/libs/subdir/libfoo.so''
                           then [''.text'', ''.symtab'', ''.debug_info''] else [''.text''])\<rparr>"

text \<open>A tool that reports a build id made of the path, so that every file has its own.\<close>

definition readelf_by_path :: ReadElf where
  "readelf_by_path =
     \<lparr>get_build_id = (\<lambda>p. ''id:'' @ p),
      get_arch = (\<lambda>p. ''arm64''),
      get_sections = (\<lambda>p. [''.text'', ''.gnu_debugdata'', ''.symtab''])\<rparr>"

text \<open>The conditions under which a build id and a name survive the build id list: neither
  holds \<^verbatim>\<open>=\<close> or a line end character; the build id does not begin, and the name does
  not end, with a whitespace character (the reader strips every line).\<close>

definition has_no_separator :: "string \<Rightarrow> bool" where
  "has_no_separator x \<longleftrightarrow> CHR ''='' \<notin> set x \<and> LF \<notin> set x \<and> CR \<notin> set x"

definition manifest_safe_key :: "string \<Rightarrow> bool" where
  "manifest_safe_key k \<longleftrightarrow> has_no_separator k \<and> (k = [] \<or> \<not> isspace (hd k))"

definition manifest_safe_name :: "string \<Rightarrow> bool" where
  "manifest_safe_name v \<longleftrightarrow> has_no_separator v \<and> (v = [] \<or> \<not> isspace (last v))"

text \<open>The first command of \<^verbatim>\<open>collect_native_libs_on_device\<close>.\<close>

definition mkdir_command :: "string list" where
  "mkdir_command = [''shell'', ''mkdir'', ''-p'', NATIVE_LIBS_DIR_ON_DEVICE]"

text \<open>A host registry whose only build id begins with a space.\<close>

definition spaced_registry :: "(string \<times> HostElfEntry) list" where
  "spaced_registry = [('' k'', \<lparr>path = ''/libs/v'', name = ''v'', score = 0\<rparr>)]"

text \<open>A tool that reports the build id \<^verbatim>\<open>B\<close> for every file, and the host directory
  \<^verbatim>\<open>/libs\<close> with the single library \<^verbatim>\<open>a=b.so\<close>, scanned by a new downloader.\<close>

definition readelf_B :: ReadElf where
  "readelf_B =
     \<lparr>get_build_id = (\<lambda>p. ''B''),
      get_arch = (\<lambda>p. ''arm64''),
      get_sections = (\<lambda>p. [])\<rparr>"

definition eqname_state :: NativeLibDownloader where
  "eqname_state =
     collect_native_libs_on_host readelf_B [(''/libs'', [], [''a=b.so''])]
       (NativeLibDownloader_init ''arm64'')"

definition eqname_entry :: HostElfEntry where
  "eqname_entry = \<lparr>path = ''/libs/a=b.so'', name = ''a=b.so'', score = 0\<rparr>"

text \<open>The effects of the first sync of that downloader, and the effects once the second run
  has fetched the build id list again.\<close>

definition eqname_first_trace :: "effect list" where
  "eqname_first_trace =
     [Adb (push_command eqname_entry),
      WriteFile build_id_list_file (''B=a=b.so'' @ [LF]),
      Adb push_list_command,
      RemoveFile build_id_list_file]"

definition eqname_reread_trace :: "effect list" where
  "eqname_reread_trace =
     eqname_first_trace @
     [Adb mkdir_command,
      Adb [''pull'', NATIVE_LIBS_DIR_ON_DEVICE @ build_id_list_file],
      WriteFile build_id_list_file (''B=a=b.so'' @ [LF])]"

text \<open>The same for the scenario of the sync engine.\<close>

definition scenario_first_trace :: "effect list" where
  "scenario_first_trace =
     [Adb (push_command lib2_entry),
      Adb (rm_command ''lib1.so''),
      WriteFile build_id_list_file (''B2=lib2.so'' @ [LF]),
      Adb push_list_command,
      RemoveFile build_id_list_file]"

definition scenario_reread_trace :: "effect list" where
  "scenario_reread_trace =
     scenario_first_trace @
     [Adb mkdir_command,
      Adb [''pull'', NATIVE_LIBS_DIR_ON_DEVICE @ build_id_list_file],
      WriteFile build_id_list_file (''B2=lib2.so'' @ [LF])]"

text \<open>The names given by a scan, in the order of the registry, and the invariant of the
  scan: the names are pairwise distinct, and each is built from a file name ending in
  \<^verbatim>\<open>.so\<close> and a counter below the current counter of that file name.\<close>

definition scanned_names :: "NativeLibDownloader \<Rightarrow> string list" where
  "scanned_names s = map (\<lambda>(build_id, entry). name entry) (host_build_id_map s)"

definition names_inv :: "NativeLibDownloader \<Rightarrow> bool" where
  "names_inv s \<longleftrightarrow>
     distinct (scanned_names s) \<and>
     (\<forall>x \<in> set (scanned_names s).
        \<exists>n k. endswith n ''.so'' \<and> k < repeat_count_of s n \<and> x = unique_name_of n k)"

text \<open>A host directory with two libraries of the same file name.\<close>

definition liba_walk :: "(string \<times> string list \<times> string list) list" where
  "liba_walk = [(''/libs'', [''sub''], [''liba.so'', ''notes.txt'']), (''/libs/sub'', [], [''liba.so''])]"

definition liba_first :: HostElfEntry where
  "liba_first = \<lparr>path = ''/libs/liba.so'', name = ''liba.so'', score = 2\<rparr>"

definition liba_second :: HostElfEntry where
  "liba_second = \<lparr>path = ''/libs/sub/liba.so'', name = ''liba.so_1'', score = 2\<rparr>"

section \<open>Properties of the host library scanner\<close>

lemma add_rejected_arch:
  "get_arch re p \<notin> set (need_archs s) \<Longrightarrow> add_native_lib_on_host re p n s = s"
  by (simp add: add_native_lib_on_host_def Let_def)

lemma add_known:
  assumes "get_build_id re p \<noteq> []" and "get_arch re p \<in> set (need_archs s)"
    and "map_of (host_build_id_map s) (get_build_id re p) = Some e"
  shows "add_native_lib_on_host re p n s =
     (if score e < sections_score (get_sections re p)
      then s\<lparr>host_build_id_map :=
               AList.update (get_build_id re p)
                 (e\<lparr>path := p, score := sections_score (get_sections re p)\<rparr>)
                 (host_build_id_map s)\<rparr>
      else s)"
  using assms by (simp add: add_native_lib_on_host_def Let_def)

lemma add_new:
  assumes "get_build_id re p \<noteq> []" and "get_arch re p \<in> set (need_archs s)"
    and "map_of (host_build_id_map s) (get_build_id re p) = None"
  shows "add_native_lib_on_host re p n s =
     s\<lparr>name_count_map := AList.update n (repeat_count_of s n + 1) (name_count_map s),
       host_build_id_map :=
         AList.update (get_build_id re p)
           \<lparr>path = p, name = unique_name_of n (repeat_count_of s n),
            score = sections_score (get_sections re p)\<rparr>
           (host_build_id_map s)\<rparr>"
  using assms
  by (simp add: add_native_lib_on_host_def Let_def repeat_count_of_def unique_name_of_def)

lemma need_archs_add [simp]:
  "need_archs (add_native_lib_on_host re p n s) = need_archs s"
  by (simp add: add_native_lib_on_host_def Let_def split: option.splits)

text \<open>
  C6. The score of a scanned file follows the ordered policy: 3 when \<^verbatim>\<open>.debug_info\<close> is
  among its sections; otherwise 2 when \<^verbatim>\<open>.gnu_debugdata\<close> is; otherwise 1 when
  \<^verbatim>\<open>.symtab\<close> is; otherwise 0. It is the score of the entry the scanner creates for a
  file with a new build id.
\<close>

theorem score_policy:
  assumes "get_build_id re p \<noteq> []" and "get_arch re p \<in> set (need_archs s)"
    and "map_of (host_build_id_map s) (get_build_id re p) = None"
  shows "\<exists>e. map_of (host_build_id_map (add_native_lib_on_host re p n s)) (get_build_id re p)
            = Some e \<and>
          score e =
            (if ''.debug_info'' \<in> set (get_sections re p) then 3
             else if ''.gnu_debugdata'' \<in> set (get_sections re p) then 2
             else if ''.symtab'' \<in> set (get_sections re p) then 1
             else 0)"
  using assms by (simp add: add_new AList.update_conv' sections_score_def)

theorem score_policy_witness:
  "get_build_id readelf_by_path ''/libs/a.so'' \<noteq> [] \<and>
   get_arch readelf_by_path ''/libs/a.so'' \<in> set (need_archs (NativeLibDownloader_init ''arm64'')) \<and>
   map_of (host_build_id_map (NativeLibDownloader_init ''arm64''))
     (get_build_id readelf_by_path ''/libs/a.so'') = None \<and>
   (\<exists>e. map_of (host_build_id_map
              (add_native_lib_on_host readelf_by_path ''/libs/a.so'' ''a.so''
                 (NativeLibDownloader_init ''arm64'')))
           (get_build_id readelf_by_path ''/libs/a.so'') = Some e \<and> score e = 2)"
proof -
  have h1: "get_build_id readelf_by_path ''/libs/a.so'' \<noteq> []"
    by (simp add: readelf_by_path_def)
  have h2: "get_arch readelf_by_path ''/libs/a.so''
              \<in> set (need_archs (NativeLibDownloader_init ''arm64''))"
    by (simp add: readelf_by_path_def NativeLibDownloader_init_def get_need_archs_def)
  have h3: "map_of (host_build_id_map (NativeLibDownloader_init ''arm64''))
              (get_build_id readelf_by_path ''/libs/a.so'') = None"
    by (simp add: NativeLibDownloader_init_def)
  have secs: "get_sections readelf_by_path ''/libs/a.so'' = [''.text'', ''.gnu_debugdata'', ''.symtab'']"
    by (simp add: readelf_by_path_def)
  from score_policy [OF h1 h2 h3, of "''a.so''"] h1 h2 h3 show ?thesis
    by (simp add: secs)
qed

lemma add_files_no_archs:
  "need_archs s = [] \<Longrightarrow> add_files re root files s = s"
  by (induction files) (simp_all add: add_rejected_arch)

lemma walk_dirs_no_archs:
  "need_archs s = [] \<Longrightarrow> walk_dirs re walk s = s"
  by (induction walk) (auto simp add: add_files_no_archs)

text \<open>
  C10. When the architecture of the device is none of \<^verbatim>\<open>arm\<close>, \<^verbatim>\<open>arm64\<close>,
  \<^verbatim>\<open>x86\<close>, \<^verbatim>\<open>x86_64\<close>, the list of needed architectures is empty, and the scan of
  any directory, with any tool, leaves the host registry empty.
\<close>

theorem unknown_arch_empty_registry:
  assumes "device_arch \<notin> {''arm'', ''arm64'', ''x86'', ''x86_64''}"
  shows "need_archs (NativeLibDownloader_init device_arch) = [] \<and>
         host_build_id_map
           (collect_native_libs_on_host re walk (NativeLibDownloader_init device_arch)) = []"
proof -
  have n: "need_archs (NativeLibDownloader_init device_arch) = []"
    using assms by (simp add: NativeLibDownloader_init_def get_need_archs_def)
  then show ?thesis
    by (simp add: collect_native_libs_on_host_def walk_dirs_no_archs)
qed

theorem unknown_arch_empty_registry_witness:
  "''mips'' \<notin> {''arm'', ''arm64'', ''x86'', ''x86_64''} \<and>
   need_archs (NativeLibDownloader_init ''mips'') = [] \<and>
   host_build_id_map
     (collect_native_libs_on_host readelf_by_path [(''/libs'', [], [''a.so'', ''b.so''])]
        (NativeLibDownloader_init ''mips'')) = []"
proof -
  have h: "''mips'' \<notin> {''arm'', ''arm64'', ''x86'', ''x86_64''}" by simp
  have c: "need_archs (NativeLibDownloader_init ''mips'') = [] \<and>
   host_build_id_map
     (collect_native_libs_on_host readelf_by_path [(''/libs'', [], [''a.so'', ''b.so''])]
        (NativeLibDownloader_init ''mips'')) = []"
    by (rule unknown_arch_empty_registry [OF h])
  from h c show ?thesis by (rule conjI)
qed

section \<open>Properties of the sync engine\<close>

lemma check_run_cases:
  "check_run adb args tr =
     (if adb tr args then (Inr (), tr @ [Adb args]) else (Inl (AdbFailed args), tr @ [Adb args]))"
  by (simp add: check_run_def run_def)

lemma push_missing_append:
  "push_missing adb s (xs @ ys) tr =
     (case push_missing adb s xs tr of
        (Inl e, t) \<Rightarrow> (Inl e, t)
      | (Inr u, t) \<Rightarrow> push_missing adb s ys t)"
  by (induction adb s xs tr rule: push_missing.induct) (simp_all add: check_run_cases)

lemma push_missing_ok:
  "push_missing adb s h tr = (Inr (), tr') \<Longrightarrow>
   tr' = tr @ map (\<lambda>(build_id, entry). Adb (push_command entry))
                (filter (\<lambda>(build_id, entry). build_id \<notin> fst ` set (device_build_id_map s)) h)"
proof (induction h arbitrary: tr)
  case Nil
  then show ?case by simp
next
  case (Cons x h)
  obtain b e where x: "x = (b, e)" by (cases x)
  show ?case
  proof (cases "b \<in> fst ` set (device_build_id_map s)")
    case True
    with Cons x show ?thesis by simp
  next
    case False
    with Cons.prems x have ok: "adb tr (push_command e)"
      by (auto simp add: check_run_cases push_command_def split: if_splits)
    with Cons.prems x False
    have "push_missing adb s h (tr @ [Adb (push_command e)]) = (Inr (), tr')"
      by (simp add: check_run_cases push_command_def)
    from Cons.IH [OF this] x False show ?thesis by simp
  qed
qed

lemma push_missing_all_ok:
  "(\<And>h p q. adb h [''push'', p, q]) \<Longrightarrow>
   push_missing adb s h tr =
     (Inr (), tr @ map (\<lambda>(build_id, entry). Adb (push_command entry))
                (filter (\<lambda>(build_id, entry). build_id \<notin> fst ` set (device_build_id_map s)) h))"
  by (induction adb s h tr rule: push_missing.induct)
    (simp_all add: check_run_cases push_command_def)

lemma remove_stale_trace:
  "remove_stale adb s d tr =
     tr @ map (\<lambda>(build_id, n). Adb (rm_command n))
            (filter (\<lambda>(build_id, n). build_id \<notin> fst ` set (host_build_id_map s)) d)"
  by (induction adb s d tr rule: remove_stale.induct)
    (simp_all add: run_def rm_command_def)

lemma write_build_id_list_format:
  "write_build_id_list h fh = fh @ manifest_format (registry_names h)"
  by (induction h arbitrary: fh) (auto simp add: manifest_format_def registry_names_def)

lemma sync_after_pushes:
  assumes "push_missing adb s (host_build_id_map s) tr = (Inr (), tr1)"
  shows "sync_natives_libs_on_device adb s tr =
     (let tr3 = tr1 @ map (\<lambda>(build_id, n). Adb (rm_command n)) (stale_on_device s)
                  @ [WriteFile build_id_list_file
                       (manifest_format (registry_names (host_build_id_map s)))]
      in if adb tr3 push_list_command
         then (Inr (), tr3 @ [Adb push_list_command, RemoveFile build_id_list_file])
         else (Inl (AdbFailed push_list_command), tr3 @ [Adb push_list_command]))"
  using assms
  by (simp add: sync_natives_libs_on_device_def Let_def check_run_cases remove_stale_trace
      stale_on_device_def write_build_id_list_format push_list_command_def)

lemma sync_pushes_ok:
  assumes "\<And>h p q. adb h [''push'', p, q]"
  shows "sync_natives_libs_on_device adb s tr =
         (Inr (),
          tr @ map (\<lambda>(build_id, entry). Adb (push_command entry)) (missing_on_device s)
             @ map (\<lambda>(build_id, n). Adb (rm_command n)) (stale_on_device s)
             @ [WriteFile build_id_list_file
                  (manifest_format (registry_names (host_build_id_map s))),
                Adb push_list_command,
                RemoveFile build_id_list_file])"
proof -
  have p: "push_missing adb s (host_build_id_map s) tr =
     (Inr (), tr @ map (\<lambda>(build_id, entry). Adb (push_command entry)) (missing_on_device s))"
    using assms by (simp add: push_missing_all_ok missing_on_device_def)
  have "adb h push_list_command" for h
    using assms by (simp add: push_list_command_def)
  then show ?thesis
    by (simp add: sync_after_pushes [OF p] Let_def)
qed

lemma sync_scenario_missing: "missing_on_device sync_scenario = [(''B2'', lib2_entry)]"
  by (simp add: missing_on_device_def sync_scenario_def)

lemma sync_scenario_stale: "stale_on_device sync_scenario = [(''B1'', ''lib1.so'')]"
  by (simp add: stale_on_device_def sync_scenario_def)

lemma sync_scenario_manifest:
  "manifest_format (registry_names (host_build_id_map sync_scenario)) = ''B2=lib2.so'' @ [LF]"
  by (simp add: manifest_format_def registry_names_def sync_scenario_def lib2_entry_def)

text \<open>
  C1. A sync that is not aborted issues, in this order: one push for each host entry whose
  build id the device map lacks (the file at the entry's path, stored under the entry's
  name), one removal for each device entry whose build id the host map lacks, and then
  writes and pushes a build id list that holds exactly the host registry's build id to name
  mapping, whatever the device map was.
\<close>

theorem sync_effects:
  assumes "fst (sync_natives_libs_on_device adb s tr) = Inr ()"
  shows "snd (sync_natives_libs_on_device adb s tr) =
     tr @ map (\<lambda>(build_id, entry). Adb (push_command entry)) (missing_on_device s)
        @ map (\<lambda>(build_id, n). Adb (rm_command n)) (stale_on_device s)
        @ [WriteFile build_id_list_file (manifest_format (registry_names (host_build_id_map s))),
           Adb push_list_command,
           RemoveFile build_id_list_file]"
proof -
  obtain r tr1 where p: "push_missing adb s (host_build_id_map s) tr = (r, tr1)"
    by (cases "push_missing adb s (host_build_id_map s) tr")
  with assms have r: "r = Inr ()"
    by (cases r) (simp_all add: sync_natives_libs_on_device_def)
  from push_missing_ok [OF p [unfolded r]]
  have tr1: "tr1 = tr @ map (\<lambda>(build_id, entry). Adb (push_command entry)) (missing_on_device s)"
    by (simp add: missing_on_device_def)
  from assms show ?thesis
    by (simp add: sync_after_pushes [OF p [unfolded r]] Let_def tr1 split: if_splits)
qed

theorem sync_effects_witness:
  "fst (sync_natives_libs_on_device adb_always_ok sync_scenario []) = Inr () \<and>
   snd (sync_natives_libs_on_device adb_always_ok sync_scenario []) =
     [Adb (push_command lib2_entry),
      Adb (rm_command ''lib1.so''),
      WriteFile build_id_list_file (''B2=lib2.so'' @ [LF]),
      Adb push_list_command,
      RemoveFile build_id_list_file]"
proof -
  have h: "fst (sync_natives_libs_on_device adb_always_ok sync_scenario []) = Inr ()"
    by (simp add: sync_pushes_ok adb_always_ok_def)
  have c: "snd (sync_natives_libs_on_device adb_always_ok sync_scenario []) =
     [] @ map (\<lambda>(build_id, entry). Adb (push_command entry)) (missing_on_device sync_scenario)
        @ map (\<lambda>(build_id, n). Adb (rm_command n)) (stale_on_device sync_scenario)
        @ [WriteFile build_id_list_file
             (manifest_format (registry_names (host_build_id_map sync_scenario))),
           Adb push_list_command,
           RemoveFile build_id_list_file]"
    by (rule sync_effects [OF h])
  have c': "snd (sync_natives_libs_on_device adb_always_ok sync_scenario []) =
     [Adb (push_command lib2_entry),
      Adb (rm_command ''lib1.so''),
      WriteFile build_id_list_file (''B2=lib2.so'' @ [LF]),
      Adb push_list_command,
      RemoveFile build_id_list_file]"
    unfolding c sync_scenario_missing sync_scenario_stale sync_scenario_manifest by simp
  from h c' show ?thesis by (rule conjI)
qed

text \<open>
  C8. A push of a library that fails ends the sync at once with a failure: no later
  command is issued (first part; \<open>pre\<close> are the host entries handled before the failing
  one). A removal that fails does not: whenever the pushes succeed the sync runs to its end
  and reports success, whatever the device answers to the removals (second part).
\<close>

theorem push_fatal_rm_tolerated:
  "(host_build_id_map s = pre @ (b, e) # post \<and>
    b \<notin> fst ` set (device_build_id_map s) \<and>
    push_missing adb s pre tr = (Inr (), tr1) \<and>
    \<not> adb tr1 (push_command e) \<longrightarrow>
      sync_natives_libs_on_device adb s tr =
        (Inl (AdbFailed (push_command e)), tr1 @ [Adb (push_command e)]))
   \<and>
   ((\<forall>h p q. adb' h [''push'', p, q]) \<longrightarrow>
      sync_natives_libs_on_device adb' s tr =
        (Inr (),
         tr @ map (\<lambda>(build_id, entry). Adb (push_command entry)) (missing_on_device s)
            @ map (\<lambda>(build_id, n). Adb (rm_command n)) (stale_on_device s)
            @ [WriteFile build_id_list_file
                 (manifest_format (registry_names (host_build_id_map s))),
               Adb push_list_command,
               RemoveFile build_id_list_file]))"
proof (intro conjI impI)
  assume a: "host_build_id_map s = pre @ (b, e) # post \<and>
    b \<notin> fst ` set (device_build_id_map s) \<and>
    push_missing adb s pre tr = (Inr (), tr1) \<and>
    \<not> adb tr1 (push_command e)"
  then have "push_missing adb s (host_build_id_map s) tr =
      (Inl (AdbFailed (push_command e)), tr1 @ [Adb (push_command e)])"
    by (simp add: push_missing_append check_run_cases push_command_def)
  then show "sync_natives_libs_on_device adb s tr =
         (Inl (AdbFailed (push_command e)), tr1 @ [Adb (push_command e)])"
    by (simp add: sync_natives_libs_on_device_def)
next
  assume "\<forall>h p q. adb' h [''push'', p, q]"
  then show "sync_natives_libs_on_device adb' s tr =
         (Inr (),
          tr @ map (\<lambda>(build_id, entry). Adb (push_command entry)) (missing_on_device s)
             @ map (\<lambda>(build_id, n). Adb (rm_command n)) (stale_on_device s)
             @ [WriteFile build_id_list_file
                  (manifest_format (registry_names (host_build_id_map s))),
                Adb push_list_command,
                RemoveFile build_id_list_file])"
    by (simp add: sync_pushes_ok)
qed

theorem push_fatal_rm_tolerated_witness:
  "(host_build_id_map sync_scenario = [] @ (''B2'', lib2_entry) # [] \<and>
    ''B2'' \<notin> fst ` set (device_build_id_map sync_scenario) \<and>
    push_missing adb_never_ok sync_scenario [] [] = (Inr (), []) \<and>
    \<not> adb_never_ok [] (push_command lib2_entry)) \<and>
   sync_natives_libs_on_device adb_never_ok sync_scenario [] =
     (Inl (AdbFailed (push_command lib2_entry)), [] @ [Adb (push_command lib2_entry)]) \<and>
   (\<forall>h p q. adb_only_push h [''push'', p, q]) \<and>
   \<not> adb_only_push [Adb (push_command lib2_entry)] (rm_command ''lib1.so'') \<and>
   sync_natives_libs_on_device adb_only_push sync_scenario [] =
     (Inr (),
      [Adb (push_command lib2_entry),
       Adb (rm_command ''lib1.so''),
       WriteFile build_id_list_file (''B2=lib2.so'' @ [LF]),
       Adb push_list_command,
       RemoveFile build_id_list_file])"
proof -
  note T = push_fatal_rm_tolerated [of sync_scenario "[]" "''B2''" lib2_entry "[]"
      adb_never_ok "[]" "[]" adb_only_push]
  have h1: "host_build_id_map sync_scenario = [] @ (''B2'', lib2_entry) # [] \<and>
    ''B2'' \<notin> fst ` set (device_build_id_map sync_scenario) \<and>
    push_missing adb_never_ok sync_scenario [] [] = (Inr (), []) \<and>
    \<not> adb_never_ok [] (push_command lib2_entry)"
    by (simp add: sync_scenario_def adb_never_ok_def)
  have c1: "sync_natives_libs_on_device adb_never_ok sync_scenario [] =
     (Inl (AdbFailed (push_command lib2_entry)), [] @ [Adb (push_command lib2_entry)])"
    using T [THEN conjunct1] h1 by (rule mp)
  have h2: "\<forall>h p q. adb_only_push h [''push'', p, q]"
    by (simp add: adb_only_push_def)
  have rm: "\<not> adb_only_push [Adb (push_command lib2_entry)] (rm_command ''lib1.so'')"
    by (simp add: adb_only_push_def rm_command_def)
  have c2: "sync_natives_libs_on_device adb_only_push sync_scenario [] =
     (Inr (),
      [] @ map (\<lambda>(build_id, entry). Adb (push_command entry)) (missing_on_device sync_scenario)
         @ map (\<lambda>(build_id, n). Adb (rm_command n)) (stale_on_device sync_scenario)
         @ [WriteFile build_id_list_file
              (manifest_format (registry_names (host_build_id_map sync_scenario))),
            Adb push_list_command,
            RemoveFile build_id_list_file])"
    using T [THEN conjunct2] h2 by (rule mp)
  have c2': "sync_natives_libs_on_device adb_only_push sync_scenario [] =
     (Inr (),
      [Adb (push_command lib2_entry),
       Adb (rm_command ''lib1.so''),
       WriteFile build_id_list_file (''B2=lib2.so'' @ [LF]),
       Adb push_list_command,
       RemoveFile build_id_list_file])"
    unfolding c2 sync_scenario_missing sync_scenario_stale sync_scenario_manifest by simp
  from rm c2' have r4: "\<not> adb_only_push [Adb (push_command lib2_entry)] (rm_command ''lib1.so'') \<and>
   sync_natives_libs_on_device adb_only_push sync_scenario [] =
     (Inr (),
      [Adb (push_command lib2_entry),
       Adb (rm_command ''lib1.so''),
       WriteFile build_id_list_file (''B2=lib2.so'' @ [LF]),
       Adb push_list_command,
       RemoveFile build_id_list_file])"
    by (rule conjI)
  from h1 show ?thesis
    by (rule conjI) (intro conjI c1 h2 r4)
qed

section \<open>Properties of the remote registry reader\<close>

lemma not_isspace_eq [simp]: "\<not> isspace CHR ''=''"
  by (simp add: isspace_def)

lemma isspace_LF [simp]: "isspace LF"
  by (simp add: isspace_def LF_def)

lemma str_split_nonempty [simp]: "str_split sep xs \<noteq> []"
  by (induction xs) (auto split: list.splits)

lemma str_split_no_sep: "sep \<notin> set xs \<Longrightarrow> str_split sep xs = [xs]"
  by (induction xs) auto

lemma str_split_first_sep:
  "sep \<notin> set xs \<Longrightarrow> str_split sep (xs @ sep # ys) = xs # str_split sep ys"
  by (induction xs) auto

lemma length_str_split: "length (str_split sep xs) = Suc (count_list xs sep)"
  by (induction xs) (auto split: list.splits)

lemma count_list_zero: "count_list xs x = 0 \<longleftrightarrow> x \<notin> set xs"
  by (induction xs) auto

lemma str_split_one_sep:
  assumes "count_list xs sep = 1"
  shows "str_split sep xs =
           [takeWhile (\<lambda>c. c \<noteq> sep) xs, tl (dropWhile (\<lambda>c. c \<noteq> sep) xs)]"
proof -
  let ?a = "takeWhile (\<lambda>c. c \<noteq> sep) xs" and ?b = "dropWhile (\<lambda>c. c \<noteq> sep) xs"
  from assms have "sep \<in> set xs"
    using count_list_zero [of xs sep] by auto
  then have "?b \<noteq> []" by (auto simp add: dropWhile_eq_Nil_conv)
  then have hd: "hd ?b = sep" using hd_dropWhile [of "\<lambda>c. c \<noteq> sep" xs] by auto
  with \<open>?b \<noteq> []\<close> have b: "?b = sep # tl ?b" by (cases ?b) auto
  have xs: "xs = ?a @ sep # tl ?b" using b takeWhile_dropWhile_id [of "\<lambda>c. c \<noteq> sep" xs] by simp
  have a: "sep \<notin> set ?a" by (auto dest: set_takeWhileD)
  then have "count_list ?a sep = 0" by (simp add: count_list_zero)
  with assms xs have "count_list (?a @ sep # tl ?b) sep = 1" by simp
  then have "count_list (tl ?b) sep = 0" using \<open>count_list ?a sep = 0\<close> by simp
  then have "sep \<notin> set (tl ?b)" by (simp add: count_list_zero)
  then have "str_split sep (?a @ sep # tl ?b) = [?a, tl ?b]"
    using a by (simp add: str_split_first_sep str_split_no_sep)
  with xs show ?thesis by simp
qed

lemma add_line_cases:
  "add_line m line0 =
     (if count_list (strip line0) CHR ''='' = 1
      then AList.update (takeWhile (\<lambda>c. c \<noteq> CHR ''='') (strip line0))
             (tl (dropWhile (\<lambda>c. c \<noteq> CHR ''='') (strip line0))) m
      else m)"
proof (cases "count_list (strip line0) CHR ''='' = 1")
  case True
  then show ?thesis
    by (simp add: add_line_def Let_def str_split_one_sep)
next
  case False
  then show ?thesis
    by (simp add: add_line_def Let_def length_str_split)
qed

lemma local_file_append:
  "local_file (xs @ ys) f cur = local_file ys f (local_file xs f cur)"
  by (induction xs f cur rule: local_file.induct) simp_all

lemma collect_device_reads:
  assumes "adb tr mkdir_command"
  shows "fst (collect_native_libs_on_device adb (Some content) s tr) =
           Inr (s\<lparr>device_build_id_map := read_build_id_list content\<rparr>)"
  using assms
  by (simp add: collect_native_libs_on_device_def check_run_cases mkdir_command_def Let_def
      local_file_append)

text \<open>
  C3, as the code has it. The reader takes the pulled file line by line; a line is accepted
  exactly when, once stripped of surrounding whitespace, it holds one single \<^verbatim>\<open>=\<close>:
  the text before it is the build id, the text after it the name. Every other line (none,
  or two and more \<^verbatim>\<open>=\<close>) leaves the mapping as it is. Reading never fails because of
  a line: once the directory on the device exists, the result is the mapping read.
\<close>

theorem reader_line_policy:
  "add_line m line0 =
     (if count_list (strip line0) CHR ''='' = 1
      then AList.update (takeWhile (\<lambda>c. c \<noteq> CHR ''='') (strip line0))
             (tl (dropWhile (\<lambda>c. c \<noteq> CHR ''='') (strip line0))) m
      else m) \<and>
   read_build_id_list content = foldl add_line [] (readlines (universal_newlines content)) \<and>
   (adb tr mkdir_command \<longrightarrow>
      fst (collect_native_libs_on_device adb (Some content) s tr) =
        Inr (s\<lparr>device_build_id_map := read_build_id_list content\<rparr>))"
  by (intro conjI impI add_line_cases collect_device_reads)
    (simp_all add: read_build_id_list_def)

theorem reader_line_policy_witness:
  "count_list (strip (''x=y '' @ [LF])) CHR ''='' = 1 \<and>
   add_line [(''x'', ''old'')] (''x=y '' @ [LF]) = [(''x'', ''y'')] \<and>
   count_list (strip (''x=y=z'' @ [LF])) CHR ''='' \<noteq> 1 \<and>
   add_line [(''x'', ''old'')] (''x=y=z'' @ [LF]) = [(''x'', ''old'')] \<and>
   adb_always_ok [] mkdir_command \<and>
   fst (collect_native_libs_on_device adb_always_ok (Some (''x=y '' @ [LF]))
          (NativeLibDownloader_init ''arm64'') []) =
     Inr ((NativeLibDownloader_init ''arm64'')
            \<lparr>device_build_id_map := read_build_id_list (''x=y '' @ [LF])\<rparr>)"
proof -
  note T = reader_line_policy [of "[(''x'', ''old'')]" "''x=y '' @ [LF]" "''x=y '' @ [LF]"
      adb_always_ok "[]" "NativeLibDownloader_init ''arm64''"]
  note U = reader_line_policy [of "[(''x'', ''old'')]" "''x=y=z'' @ [LF]" "''x=y '' @ [LF]"
      adb_always_ok "[]" "NativeLibDownloader_init ''arm64''"]
  have e1: "strip (''x=y '' @ [LF]) = ''x=y''"
    by (simp add: strip_def lstrip_def rstrip_def isspace_def LF_def)
  have e2: "strip (''x=y=z'' @ [LF]) = ''x=y=z''"
    by (simp add: strip_def lstrip_def rstrip_def isspace_def LF_def)
  have h1: "count_list (strip (''x=y '' @ [LF])) CHR ''='' = 1"
    unfolding e1 by simp
  have c1: "add_line [(''x'', ''old'')] (''x=y '' @ [LF]) = [(''x'', ''y'')]"
    unfolding T [THEN conjunct1] e1 by simp
  have h2: "count_list (strip (''x=y=z'' @ [LF])) CHR ''='' \<noteq> 1"
    unfolding e2 by simp
  have c2: "add_line [(''x'', ''old'')] (''x=y=z'' @ [LF]) = [(''x'', ''old'')]"
    unfolding U [THEN conjunct1] e2 by simp
  have h3: "adb_always_ok [] mkdir_command"
    by (simp add: adb_always_ok_def)
  have c3: "fst (collect_native_libs_on_device adb_always_ok (Some (''x=y '' @ [LF]))
          (NativeLibDownloader_init ''arm64'') []) =
     Inr ((NativeLibDownloader_init ''arm64'')
            \<lparr>device_build_id_map := read_build_id_list (''x=y '' @ [LF])\<rparr>)"
    using T [THEN conjunct2, THEN conjunct2] h3 by (rule mp)
  show ?thesis
    by (intro conjI h1 c1 h2 c2 h3 c3)
qed

text \<open>
  C3, as the claim words it, fails: a line whose name part holds a further \<^verbatim>\<open>=\<close>
  is not accepted with the rest of the line as its name, it is ignored.
\<close>

theorem reader_further_equals_ignored:
  "read_build_id_list (''id=a=b'' @ [LF]) = [] \<and>
   read_build_id_list (''id=a=b'' @ [LF]) \<noteq> [(''id'', ''a=b'')]"
  by (simp add: read_build_id_list_def add_line_def strip_def lstrip_def rstrip_def
      isspace_def LF_def CR_def)

section \<open>Writing the build id list and reading it back\<close>

lemma universal_newlines_Cons:
  "CR \<noteq> c \<Longrightarrow> universal_newlines (c # cs) = c # universal_newlines cs"
  by (cases cs) auto

lemma universal_newlines_append:
  "CR \<notin> set xs \<Longrightarrow> universal_newlines (xs @ ys) = xs @ universal_newlines ys"
  by (induction xs) (simp_all add: universal_newlines_Cons)

lemma readlines_line:
  "LF \<notin> set xs \<Longrightarrow> readlines (xs @ LF # ys) = (xs @ [LF]) # readlines ys"
  by (induction xs) auto

lemma lstrip_line:
  "k = [] \<or> \<not> isspace (hd k) \<Longrightarrow> lstrip (k @ CHR ''='' # v) = k @ CHR ''='' # v"
  by (cases k) (auto simp add: lstrip_def)

lemma rstrip_line:
  "rstrip (k @ CHR ''='' # v @ [LF]) = k @ CHR ''='' # rstrip v"
  by (simp add: rstrip_def dropWhile_append)

lemma strip_line:
  "k = [] \<or> \<not> isspace (hd k) \<Longrightarrow>
   strip (k @ CHR ''='' # v @ [LF]) = k @ CHR ''='' # rstrip v"
  using lstrip_line [of k "v @ [LF]"] by (simp add: strip_def rstrip_line)

lemma set_rstrip: "set (rstrip v) \<subseteq> set v"
  using set_dropWhileD [of _ isspace "rev v"] by (auto simp add: rstrip_def)

lemma rstrip_id: "v = [] \<or> \<not> isspace (last v) \<Longrightarrow> rstrip v = v"
  by (cases v rule: rev_cases) (simp_all add: rstrip_def)

lemma add_line_record:
  assumes "k = [] \<or> \<not> isspace (hd k)" and "CHR ''='' \<notin> set k" and "CHR ''='' \<notin> set v"
  shows "add_line m (k @ CHR ''='' # v @ [LF]) = AList.update k (rstrip v) m"
proof -
  from assms(3) set_rstrip [of v] have "CHR ''='' \<notin> set (rstrip v)" by auto
  with assms show ?thesis
    by (simp add: add_line_def Let_def strip_line str_split_first_sep str_split_no_sep)
qed

lemma read_records:
  assumes "\<forall>(k, v) \<in> set kv. manifest_safe_key k \<and> has_no_separator v"
  shows "foldl add_line m (readlines (universal_newlines (manifest_format kv))) =
         foldl (\<lambda>m (k, v). AList.update k (rstrip v) m) m kv"
  using assms
proof (induction kv arbitrary: m)
  case Nil
  then show ?case by (simp add: manifest_format_def)
next
  case (Cons x kv)
  obtain k v where x: "x = (k, v)" by (cases x)
  with Cons.prems have ok: "k = [] \<or> \<not> isspace (hd k)" "CHR ''='' \<notin> set k" "LF \<notin> set k"
    "CR \<notin> set k" "CHR ''='' \<notin> set v" "LF \<notin> set v" "CR \<notin> set v"
    by (simp_all add: manifest_safe_key_def has_no_separator_def)
  have neq: "CR \<noteq> CHR ''=''" "LF \<noteq> CHR ''=''" "CR \<noteq> LF"
    by (simp_all add: CR_def LF_def)
  have fmt: "manifest_format (x # kv) = (k @ CHR ''='' # v) @ LF # manifest_format kv"
    by (simp add: manifest_format_def x)
  have cr: "CR \<notin> set ((k @ CHR ''='' # v) @ [LF])" using ok neq by auto
  have lf: "LF \<notin> set (k @ CHR ''='' # v)" using ok neq by auto
  have "universal_newlines (manifest_format (x # kv)) =
          (k @ CHR ''='' # v) @ LF # universal_newlines (manifest_format kv)"
    using universal_newlines_append [OF cr, of "manifest_format kv"] by (simp add: fmt)
  then have "readlines (universal_newlines (manifest_format (x # kv))) =
          (k @ CHR ''='' # v @ [LF]) # readlines (universal_newlines (manifest_format kv))"
    using readlines_line [OF lf] by simp
  moreover have "add_line m (k @ CHR ''='' # v @ [LF]) = AList.update k (rstrip v) m"
    using ok by (simp add: add_line_record)
  moreover have "\<forall>(k, v) \<in> set kv. manifest_safe_key k \<and> has_no_separator v"
    using Cons.prems by simp
  ultimately show ?case
    using Cons.IH [of "AList.update k (rstrip v) m"] by (simp add: x)
qed

lemma update_fresh: "k \<notin> fst ` set m \<Longrightarrow> AList.update k v m = m @ [(k, v)]"
  by (induction m) auto

lemma foldl_update_fresh:
  "distinct (map fst kv) \<Longrightarrow> fst ` set kv \<inter> fst ` set m = {} \<Longrightarrow>
   foldl (\<lambda>m (k, v). AList.update k (f v) m) m kv = m @ map (\<lambda>(k, v). (k, f v)) kv"
proof (induction kv arbitrary: m)
  case Nil
  then show ?case by simp
next
  case (Cons x kv)
  obtain k v where x: "x = (k, v)" by (cases x)
  from Cons.prems x have k: "k \<notin> fst ` set m" by auto
  have "fst ` set kv \<inter> fst ` set (m @ [(k, f v)]) = {}"
    using Cons.prems x by (auto simp add: rev_image_eqI)
  with Cons.IH [of "m @ [(k, f v)]"] Cons.prems x k show ?case
    by (simp add: update_fresh)
qed

lemma foldl_update_keys:
  "fst ` set (foldl (\<lambda>m (k, v). AList.update k (f v) m) m kv) = fst ` set m \<union> fst ` set kv"
proof (induction kv arbitrary: m)
  case Nil
  then show ?case by simp
next
  case (Cons x kv)
  obtain k v where x: "x = (k, v)" by (cases x)
  have "fst ` set (foldl (\<lambda>m (k, v). AList.update k (f v) m) (AList.update k (f v) m) kv) =
          ({k} \<union> fst ` set m) \<union> fst ` set kv"
    by (simp only: Cons.IH AList.dom_update)
  then show ?case by (simp add: x Un_commute Un_left_commute insert_commute)
qed

lemma registry_names_keys: "map fst (registry_names h) = map fst h"
  by (induction h) (auto simp add: registry_names_def)

lemma read_written_keys:
  assumes "\<forall>(b, e) \<in> set h. manifest_safe_key b \<and> has_no_separator (name e)"
  shows "fst ` set (read_build_id_list (manifest_format (registry_names h))) = fst ` set h"
proof -
  from assms have "\<forall>(k, v) \<in> set (registry_names h). manifest_safe_key k \<and> has_no_separator v"
    by (auto simp add: registry_names_def)
  from read_records [OF this, of "[]"]
  have "fst ` set (read_build_id_list (manifest_format (registry_names h))) =
        fst ` set (registry_names h)"
    by (simp add: read_build_id_list_def foldl_update_keys)
  also have "\<dots> = set (map fst (registry_names h))" by simp
  also have "\<dots> = fst ` set h" by (simp only: registry_names_keys set_map)
  finally show ?thesis .
qed

text \<open>
  C4, as the code has it. Writing a host registry to the build id list and reading the
  list back gives the registry's build id to name mapping, in the same order, when the
  build ids are distinct (they are the keys of a dictionary), no build id and no name holds
  \<^verbatim>\<open>=\<close>, a line feed or a carriage return, no build id begins and no name ends with a
  whitespace character.
\<close>

theorem manifest_round_trip:
  assumes "distinct (map fst h)"
    and "\<forall>(b, e) \<in> set h. manifest_safe_key b \<and> manifest_safe_name (name e)"
  shows "read_build_id_list (write_build_id_list h []) = registry_names h"
proof -
  let ?kv = "registry_names h"
  from assms(2) have safe: "\<forall>(k, v) \<in> set ?kv. manifest_safe_key k \<and> has_no_separator v"
    by (auto simp add: registry_names_def manifest_safe_name_def)
  from assms(2) have keep: "\<forall>(k, v) \<in> set ?kv. rstrip v = v"
    by (auto simp add: registry_names_def manifest_safe_name_def rstrip_id)
  from assms(1) have d: "distinct (map fst ?kv)"
    by (simp only: registry_names_keys)
  have "read_build_id_list (write_build_id_list h []) =
        foldl (\<lambda>m (k, v). AList.update k (rstrip v) m) [] ?kv"
    using read_records [OF safe, of "[]"]
    by (simp add: read_build_id_list_def write_build_id_list_format)
  also have "\<dots> = map (\<lambda>(k, v). (k, rstrip v)) ?kv"
    using foldl_update_fresh [OF d, of "[]" rstrip] by simp
  also have "\<dots> = ?kv"
    using keep by (intro map_idI) auto
  finally show ?thesis .
qed

theorem manifest_round_trip_witness:
  "host_build_id_map sync_scenario = [(''B2'', lib2_entry)] \<and>
   distinct (map fst (host_build_id_map sync_scenario)) \<and>
   manifest_safe_key ''B2'' \<and> manifest_safe_name (name lib2_entry) \<and>
   read_build_id_list (write_build_id_list (host_build_id_map sync_scenario) []) =
     [(''B2'', ''lib2.so'')]"
proof -
  have h0: "host_build_id_map sync_scenario = [(''B2'', lib2_entry)]"
    by (simp add: sync_scenario_def)
  have k: "manifest_safe_key ''B2''"
    by (simp add: manifest_safe_key_def has_no_separator_def isspace_def LF_def CR_def)
  have v: "manifest_safe_name (name lib2_entry)"
    by (simp add: lib2_entry_def manifest_safe_name_def has_no_separator_def isspace_def
        LF_def CR_def)
  have h1: "distinct (map fst (host_build_id_map sync_scenario))"
    by (simp add: sync_scenario_def)
  have h2: "\<forall>(b, e) \<in> set (host_build_id_map sync_scenario).
        manifest_safe_key b \<and> manifest_safe_name (name e)"
    by (simp add: sync_scenario_def lib2_entry_def manifest_safe_key_def manifest_safe_name_def
        has_no_separator_def isspace_def LF_def CR_def)
  have n: "registry_names (host_build_id_map sync_scenario) = [(''B2'', ''lib2.so'')]"
    by (simp add: registry_names_def sync_scenario_def lib2_entry_def)
  have c: "read_build_id_list (write_build_id_list (host_build_id_map sync_scenario) []) =
     [(''B2'', ''lib2.so'')]"
    using manifest_round_trip [OF h1 h2] unfolding n .
  show ?thesis by (intro conjI h0 h1 k v c)
qed

text \<open>
  C4, as the claim words it, fails: a build id that begins with a space holds neither
  \<^verbatim>\<open>=\<close> nor a newline, and is read back without the space.
\<close>

theorem manifest_round_trip_loses_space:
  "has_no_separator '' k'' \<and> has_no_separator ''v'' \<and>
   registry_names spaced_registry = [('' k'', ''v'')] \<and>
   read_build_id_list (write_build_id_list spaced_registry []) = [(''k'', ''v'')] \<and>
   read_build_id_list (write_build_id_list spaced_registry []) \<noteq> registry_names spaced_registry"
  by (simp add: has_no_separator_def registry_names_def spaced_registry_def
      read_build_id_list_def add_line_def strip_def lstrip_def rstrip_def
      isspace_def LF_def CR_def)

section \<open>Running the sync twice\<close>

lemma push_missing_none:
  "\<forall>(b, e) \<in> set h. b \<in> fst ` set (device_build_id_map s) \<Longrightarrow>
   push_missing adb s h tr = (Inr (), tr)"
  by (induction adb s h tr rule: push_missing.induct) simp_all

lemma collect_device_state:
  assumes "collect_native_libs_on_device adb (Some c) s tr = (Inr s2, tr2)"
  shows "s2 = s\<lparr>device_build_id_map := read_build_id_list c\<rparr>"
proof (cases "adb tr mkdir_command")
  case True
  from collect_device_reads [of adb tr c s] True assms show ?thesis by simp
next
  case False
  with assms show ?thesis
    by (simp add: collect_native_libs_on_device_def check_run_cases mkdir_command_def)
qed

lemma sync_ok_trace:
  assumes "sync_natives_libs_on_device adb s tr = (Inr (), tr')"
  shows "tr' = tr @ map (\<lambda>(build_id, entry). Adb (push_command entry)) (missing_on_device s)
        @ map (\<lambda>(build_id, n). Adb (rm_command n)) (stale_on_device s)
        @ [WriteFile build_id_list_file (manifest_format (registry_names (host_build_id_map s))),
           Adb push_list_command,
           RemoveFile build_id_list_file]"
proof -
  obtain r tr1 where p: "push_missing adb s (host_build_id_map s) tr = (r, tr1)"
    by (cases "push_missing adb s (host_build_id_map s) tr")
  with assms have r: "r = Inr ()"
    by (cases r) (simp_all add: sync_natives_libs_on_device_def)
  from push_missing_ok [OF p [unfolded r]]
  have tr1: "tr1 = tr @ map (\<lambda>(build_id, entry). Adb (push_command entry)) (missing_on_device s)"
    by (simp add: missing_on_device_def)
  from assms show ?thesis
    by (simp add: sync_after_pushes [OF p [unfolded r]] Let_def tr1 split: if_splits)
qed

lemma written_by_sync:
  assumes "sync_natives_libs_on_device adb s tr0 = (Inr (), tr1)"
    and "WriteFile build_id_list_file c \<in> set (drop (length tr0) tr1)"
  shows "c = manifest_format (registry_names (host_build_id_map s))"
  using assms(2) unfolding sync_ok_trace [OF assms(1)] by auto

lemma scenario_first_sync:
  "sync_natives_libs_on_device adb_always_ok sync_scenario [] = (Inr (), scenario_first_trace)"
  by (simp add: sync_pushes_ok adb_always_ok_def sync_scenario_missing sync_scenario_stale
      sync_scenario_manifest scenario_first_trace_def)

text \<open>
  C2. Let a first sync succeed, for any host registry and any device map. The only build id
  list it writes is the host registry's build id to name mapping, in the list's format. A
  second sync with the same host registry, whose device map is the mapping of that list,
  finds nothing missing and nothing stale: it pushes no library and removes none, it only
  writes the build id list, again the host registry's build id to name mapping, and pushes
  it.
\<close>

theorem second_sync_transfers_nothing:
  assumes "sync_natives_libs_on_device adb1 s tr0 = (Inr (), tr1)"
  shows "(\<forall>c. WriteFile build_id_list_file c \<in> set (drop (length tr0) tr1) \<longleftrightarrow>
              c = manifest_format (registry_names (host_build_id_map s))) \<and>
         missing_on_device
           (s\<lparr>device_build_id_map := registry_names (host_build_id_map s)\<rparr>) = [] \<and>
         stale_on_device
           (s\<lparr>device_build_id_map := registry_names (host_build_id_map s)\<rparr>) = [] \<and>
         sync_natives_libs_on_device adb2
           (s\<lparr>device_build_id_map := registry_names (host_build_id_map s)\<rparr>) tr =
           (let tr3 = tr @ [WriteFile build_id_list_file
                              (manifest_format (registry_names (host_build_id_map s)))]
            in if adb2 tr3 push_list_command
               then (Inr (), tr3 @ [Adb push_list_command, RemoveFile build_id_list_file])
               else (Inl (AdbFailed push_list_command), tr3 @ [Adb push_list_command]))"
proof -
  let ?s2 = "s\<lparr>device_build_id_map := registry_names (host_build_id_map s)\<rparr>"
  have written: "\<forall>c. WriteFile build_id_list_file c \<in> set (drop (length tr0) tr1) \<longleftrightarrow>
      c = manifest_format (registry_names (host_build_id_map s))"
    unfolding sync_ok_trace [OF assms] by auto
  have "map fst (device_build_id_map ?s2) = map fst (host_build_id_map ?s2)"
    by (simp add: registry_names_keys)
  then have "set (map fst (device_build_id_map ?s2)) = set (map fst (host_build_id_map ?s2))"
    by (rule arg_cong)
  then have keys: "fst ` set (device_build_id_map ?s2) = fst ` set (host_build_id_map ?s2)"
    by (simp only: set_map)
  have missing: "missing_on_device ?s2 = []"
    unfolding missing_on_device_def keys by (force simp add: filter_empty_conv)
  have stale: "stale_on_device ?s2 = []"
    unfolding stale_on_device_def keys [symmetric] by (force simp add: filter_empty_conv)
  have "\<forall>(b, e) \<in> set (host_build_id_map ?s2). b \<in> fst ` set (device_build_id_map ?s2)"
    unfolding keys by force
  then have p: "push_missing adb2 ?s2 (host_build_id_map ?s2) tr = (Inr (), tr)"
    by (rule push_missing_none)
  have run2: "sync_natives_libs_on_device adb2 ?s2 tr =
      (let tr3 = tr @ [WriteFile build_id_list_file
                         (manifest_format (registry_names (host_build_id_map s)))]
       in if adb2 tr3 push_list_command
          then (Inr (), tr3 @ [Adb push_list_command, RemoveFile build_id_list_file])
          else (Inl (AdbFailed push_list_command), tr3 @ [Adb push_list_command]))"
    unfolding sync_after_pushes [OF p] stale by simp
  show ?thesis
    by (intro conjI written missing stale run2)
qed

theorem second_sync_transfers_nothing_witness:
  "sync_natives_libs_on_device adb_always_ok sync_scenario [] =
     (Inr (), scenario_first_trace) \<and>
   device_build_id_map sync_scenario = [(''B1'', ''lib1.so'')] \<and>
   registry_names (host_build_id_map sync_scenario) = [(''B2'', ''lib2.so'')] \<and>
   sync_natives_libs_on_device adb_always_ok
     (sync_scenario\<lparr>device_build_id_map := [(''B2'', ''lib2.so'')]\<rparr>) scenario_first_trace =
     (Inr (),
      scenario_first_trace @
      [WriteFile build_id_list_file (''B2=lib2.so'' @ [LF]),
       Adb push_list_command,
       RemoveFile build_id_list_file])"
proof -
  note h = scenario_first_sync
  have d: "device_build_id_map sync_scenario = [(''B1'', ''lib1.so'')]"
    by (simp add: sync_scenario_def)
  have n: "registry_names (host_build_id_map sync_scenario) = [(''B2'', ''lib2.so'')]"
    by (simp add: registry_names_def sync_scenario_def lib2_entry_def)
  note T = second_sync_transfers_nothing [OF h, of adb_always_ok scenario_first_trace]
  have c: "sync_natives_libs_on_device adb_always_ok
     (sync_scenario\<lparr>device_build_id_map := [(''B2'', ''lib2.so'')]\<rparr>) scenario_first_trace =
     (Inr (),
      scenario_first_trace @
      [WriteFile build_id_list_file (''B2=lib2.so'' @ [LF]),
       Adb push_list_command,
       RemoveFile build_id_list_file])"
    using T [THEN conjunct2, THEN conjunct2, THEN conjunct2]
    unfolding sync_scenario_manifest
    unfolding n
    by (simp add: adb_always_ok_def)
  show ?thesis
    by (intro conjI h d n c)
qed

subsection \<open>The second run, with the list read back from the file\<close>

text \<open>
  The same through the file. Let a first sync succeed, and let a second run read the build
  id list the first one wrote (same host registry). When no build id and no name of the host
  registry holds \<^verbatim>\<open>=\<close>, a line feed or a carriage return and no build id begins with
  a whitespace character, the device map that is read has the build ids of the host
  registry, so nothing is missing and nothing is stale in the second run.
\<close>

lemma resync_through_file:
  assumes "\<forall>(b, e) \<in> set (host_build_id_map s). manifest_safe_key b \<and> has_no_separator (name e)"
    and "sync_natives_libs_on_device adb1 s tr0 = (Inr (), tr1)"
    and "WriteFile build_id_list_file c \<in> set (drop (length tr0) tr1)"
    and "collect_native_libs_on_device adb2 (Some c) s tr' = (Inr s2, tr2)"
  shows "host_build_id_map s2 = host_build_id_map s \<and>
         missing_on_device s2 = [] \<and> stale_on_device s2 = [] \<and>
         sync_natives_libs_on_device adb3 s2 tr2 =
           (let tr3 = tr2 @ [WriteFile build_id_list_file
                               (manifest_format (registry_names (host_build_id_map s)))]
            in if adb3 tr3 push_list_command
               then (Inr (), tr3 @ [Adb push_list_command, RemoveFile build_id_list_file])
               else (Inl (AdbFailed push_list_command), tr3 @ [Adb push_list_command]))"
proof -
  have c: "c = manifest_format (registry_names (host_build_id_map s))"
    using assms(2,3) by (rule written_by_sync)
  have s2: "s2 = s\<lparr>device_build_id_map := read_build_id_list c\<rparr>"
    using assms(4) by (rule collect_device_state)
  have host: "host_build_id_map s2 = host_build_id_map s"
    by (simp add: s2)
  have keys: "fst ` set (device_build_id_map s2) = fst ` set (host_build_id_map s2)"
    using read_written_keys [OF assms(1)] by (simp add: s2 c)
  have missing: "missing_on_device s2 = []"
    by (force simp add: missing_on_device_def keys filter_empty_conv)
  have stale: "stale_on_device s2 = []"
    by (force simp add: stale_on_device_def keys [symmetric] filter_empty_conv)
  have "\<forall>(b, e) \<in> set (host_build_id_map s2). b \<in> fst ` set (device_build_id_map s2)"
    by (force simp add: keys)
  then have p: "push_missing adb3 s2 (host_build_id_map s2) tr2 = (Inr (), tr2)"
    by (rule push_missing_none)
  show ?thesis
    by (simp add: host missing stale sync_after_pushes [OF p])
qed

lemma scenario_reread:
  "collect_native_libs_on_device adb_always_ok (Some (''B2=lib2.so'' @ [LF])) sync_scenario
     scenario_first_trace =
   (Inr (sync_scenario\<lparr>device_build_id_map := read_build_id_list (''B2=lib2.so'' @ [LF])\<rparr>),
    scenario_reread_trace)"
  by (simp add: collect_native_libs_on_device_def check_run_cases run_def Let_def
      adb_always_ok_def scenario_first_trace_def scenario_reread_trace_def mkdir_command_def)

lemma resync_through_file_example:
  "host_build_id_map sync_scenario = [(''B2'', lib2_entry)] \<and>
   manifest_safe_key ''B2'' \<and> has_no_separator (name lib2_entry) \<and>
   sync_natives_libs_on_device adb_always_ok sync_scenario [] = (Inr (), scenario_first_trace) \<and>
   WriteFile build_id_list_file (''B2=lib2.so'' @ [LF])
     \<in> set (drop (length ([] :: effect list)) scenario_first_trace) \<and>
   collect_native_libs_on_device adb_always_ok (Some (''B2=lib2.so'' @ [LF])) sync_scenario
     scenario_first_trace =
   (Inr (sync_scenario\<lparr>device_build_id_map := read_build_id_list (''B2=lib2.so'' @ [LF])\<rparr>),
    scenario_reread_trace) \<and>
   sync_natives_libs_on_device adb_always_ok
     (sync_scenario\<lparr>device_build_id_map := read_build_id_list (''B2=lib2.so'' @ [LF])\<rparr>)
     scenario_reread_trace =
   (Inr (),
    scenario_reread_trace @
    [WriteFile build_id_list_file (''B2=lib2.so'' @ [LF]),
     Adb push_list_command,
     RemoveFile build_id_list_file])"
proof -
  have h1: "\<forall>(b, e) \<in> set (host_build_id_map sync_scenario).
       manifest_safe_key b \<and> has_no_separator (name e)"
    by (simp add: sync_scenario_def lib2_entry_def manifest_safe_key_def
        has_no_separator_def isspace_def LF_def CR_def)
  note h2 = scenario_first_sync
  have h3: "WriteFile build_id_list_file (''B2=lib2.so'' @ [LF])
     \<in> set (drop (length ([] :: effect list)) scenario_first_trace)"
    by (simp add: scenario_first_trace_def)
  note h4 = scenario_reread
  note T = resync_through_file [OF h1 h2 h3 h4, of adb_always_ok]
  have c: "sync_natives_libs_on_device adb_always_ok
     (sync_scenario\<lparr>device_build_id_map := read_build_id_list (''B2=lib2.so'' @ [LF])\<rparr>)
     scenario_reread_trace =
   (Inr (),
    scenario_reread_trace @
    [WriteFile build_id_list_file (''B2=lib2.so'' @ [LF]),
     Adb push_list_command,
     RemoveFile build_id_list_file])"
    unfolding T [THEN conjunct2, THEN conjunct2, THEN conjunct2] sync_scenario_manifest
    by (simp add: adb_always_ok_def)
  have h0: "host_build_id_map sync_scenario = [(''B2'', lib2_entry)]"
    by (simp add: sync_scenario_def)
  have k: "manifest_safe_key ''B2''"
    by (simp add: manifest_safe_key_def has_no_separator_def isspace_def LF_def CR_def)
  have v: "has_no_separator (name lib2_entry)"
    by (simp add: lib2_entry_def has_no_separator_def LF_def CR_def)
  show ?thesis
    by (intro conjI h0 k v h2 h3 h4 c)
qed

lemma eqname_state_eval:
  "eqname_state =
     \<lparr>need_archs = [''arm'', ''arm64''],
      host_build_id_map = [(''B'', eqname_entry)],
      device_build_id_map = [],
      name_count_map = [(''a=b.so'', 1)]\<rparr>"
  by (simp add: eqname_state_def eqname_entry_def collect_native_libs_on_host_def
      NativeLibDownloader_init_def get_need_archs_def add_native_lib_on_host_def readelf_B_def
      endswith_def os_path_join_def sections_score_def)

text \<open>
  The condition on the names comes from the reader, not from the sync. A library file named
  \<^verbatim>\<open>a=b.so\<close> is scanned and pushed by the first sync, which writes the line
  \<^verbatim>\<open>B=a=b.so\<close>. The reader ignores that line, which holds two \<^verbatim>\<open>=\<close>, so a second
  run that reads the list has an empty device map again, and its sync pushes the library a
  second time.
\<close>

lemma equals_name_pushed_again:
  "host_build_id_map eqname_state = [(''B'', eqname_entry)] \<and>
   sync_natives_libs_on_device adb_always_ok eqname_state [] = (Inr (), eqname_first_trace) \<and>
   collect_native_libs_on_device adb_always_ok (Some (''B=a=b.so'' @ [LF])) eqname_state
     eqname_first_trace = (Inr eqname_state, eqname_reread_trace) \<and>
   sync_natives_libs_on_device adb_always_ok eqname_state eqname_reread_trace =
     (Inr (),
      eqname_reread_trace @
      [Adb (push_command eqname_entry),
       WriteFile build_id_list_file (''B=a=b.so'' @ [LF]),
       Adb push_list_command,
       RemoveFile build_id_list_file])"
proof -
  have m: "missing_on_device eqname_state = [(''B'', eqname_entry)]"
    by (simp add: missing_on_device_def eqname_state_eval)
  have st: "stale_on_device eqname_state = []"
    by (simp add: stale_on_device_def eqname_state_eval)
  have f: "manifest_format (registry_names (host_build_id_map eqname_state)) = ''B=a=b.so'' @ [LF]"
    by (simp add: manifest_format_def registry_names_def eqname_state_eval eqname_entry_def)
  have r: "read_build_id_list (''B=a=b.so'' @ [LF]) = []"
    by (simp add: read_build_id_list_def add_line_def strip_def lstrip_def rstrip_def
        isspace_def LF_def CR_def)
  have c1: "host_build_id_map eqname_state = [(''B'', eqname_entry)]"
    by (simp add: eqname_state_eval)
  have c2: "sync_natives_libs_on_device adb_always_ok eqname_state [] =
      (Inr (), eqname_first_trace)"
    by (simp add: sync_pushes_ok adb_always_ok_def m st f eqname_first_trace_def)
  have c3: "collect_native_libs_on_device adb_always_ok (Some (''B=a=b.so'' @ [LF]))
      eqname_state eqname_first_trace = (Inr eqname_state, eqname_reread_trace)"
    by (simp add: collect_native_libs_on_device_def check_run_cases run_def Let_def
        adb_always_ok_def eqname_first_trace_def eqname_reread_trace_def mkdir_command_def
        r [simplified])
      (simp add: eqname_state_eval)
  have c4: "sync_natives_libs_on_device adb_always_ok eqname_state eqname_reread_trace =
     (Inr (),
      eqname_reread_trace @
      [Adb (push_command eqname_entry),
       WriteFile build_id_list_file (''B=a=b.so'' @ [LF]),
       Adb push_list_command,
       RemoveFile build_id_list_file])"
    by (simp add: sync_pushes_ok adb_always_ok_def m st f)
  show ?thesis
    by (intro conjI c1 c2 c3 c4)
qed

section \<open>Files that share a build id\<close>

lemma entry_after_add:
  assumes "get_build_id re p \<noteq> []" and "get_arch re p \<in> set (need_archs s)"
  shows "map_of (host_build_id_map (add_native_lib_on_host re p n s)) (get_build_id re p) =
     Some (case map_of (host_build_id_map s) (get_build_id re p) of
             Some e \<Rightarrow>
               if score e < sections_score (get_sections re p)
               then e\<lparr>path := p, score := sections_score (get_sections re p)\<rparr> else e
           | None \<Rightarrow>
               \<lparr>path = p, name = unique_name_of n (repeat_count_of s n),
                score = sections_score (get_sections re p)\<rparr>)"
proof (cases "map_of (host_build_id_map s) (get_build_id re p)")
  case None
  with assms show ?thesis by (simp add: add_new AList.update_conv')
next
  case (Some e)
  with assms show ?thesis by (simp add: add_known AList.update_conv')
qed

lemma other_entries_after_add:
  "b \<noteq> get_build_id re p \<Longrightarrow>
   map_of (host_build_id_map (add_native_lib_on_host re p n s)) b =
   map_of (host_build_id_map s) b"
  by (simp add: add_native_lib_on_host_def Let_def AList.update_conv' split: option.splits)

text \<open>
  C7. Let a scanned file pass the filters (it has a build id and a needed architecture).
  When its build id is already in the host registry, the entry gets the path and the score
  of the new file exactly when the new score is strictly higher, and is left as it is
  otherwise; its name stays. When the build id is new, an entry with the file's path and
  score is created. The other entries are untouched. Hence, for two files with the same new
  build id of which the second scores higher, the registry ends with the path and the score
  of the higher one, whichever is scanned first.
\<close>

theorem keep_higher_score:
  "(get_build_id re p \<noteq> [] \<and> get_arch re p \<in> set (need_archs s) \<longrightarrow>
      map_of (host_build_id_map (add_native_lib_on_host re p n s)) (get_build_id re p) =
        Some (case map_of (host_build_id_map s) (get_build_id re p) of
                Some e \<Rightarrow>
                  if score e < sections_score (get_sections re p)
                  then e\<lparr>path := p, score := sections_score (get_sections re p)\<rparr> else e
              | None \<Rightarrow>
                  \<lparr>path = p, name = unique_name_of n (repeat_count_of s n),
                   score = sections_score (get_sections re p)\<rparr>) \<and>
      (\<forall>b. b \<noteq> get_build_id re p \<longrightarrow>
         map_of (host_build_id_map (add_native_lib_on_host re p n s)) b =
         map_of (host_build_id_map s) b)) \<and>
   (get_build_id re p \<noteq> [] \<and> get_arch re p \<in> set (need_archs s) \<and>
    get_build_id re q = get_build_id re p \<and> get_arch re q \<in> set (need_archs s) \<and>
    map_of (host_build_id_map s) (get_build_id re p) = None \<and>
    sections_score (get_sections re p) < sections_score (get_sections re q) \<longrightarrow>
      map_of (host_build_id_map
                (add_native_lib_on_host re q m (add_native_lib_on_host re p n s)))
        (get_build_id re p) =
        Some \<lparr>path = q, name = unique_name_of n (repeat_count_of s n),
              score = sections_score (get_sections re q)\<rparr> \<and>
      map_of (host_build_id_map
                (add_native_lib_on_host re p n (add_native_lib_on_host re q m s)))
        (get_build_id re p) =
        Some \<lparr>path = q, name = unique_name_of m (repeat_count_of s m),
              score = sections_score (get_sections re q)\<rparr>)"
proof (intro conjI impI allI)
  assume "get_build_id re p \<noteq> [] \<and> get_arch re p \<in> set (need_archs s)"
  then show "map_of (host_build_id_map (add_native_lib_on_host re p n s)) (get_build_id re p) =
        Some (case map_of (host_build_id_map s) (get_build_id re p) of
                Some e \<Rightarrow>
                  if score e < sections_score (get_sections re p)
                  then e\<lparr>path := p, score := sections_score (get_sections re p)\<rparr> else e
              | None \<Rightarrow>
                  \<lparr>path = p, name = unique_name_of n (repeat_count_of s n),
                   score = sections_score (get_sections re p)\<rparr>)"
    by (simp add: entry_after_add)
next
  fix b
  assume "b \<noteq> get_build_id re p"
  then show "map_of (host_build_id_map (add_native_lib_on_host re p n s)) b =
         map_of (host_build_id_map s) b"
    by (rule other_entries_after_add)
next
  assume a: "get_build_id re p \<noteq> [] \<and> get_arch re p \<in> set (need_archs s) \<and>
    get_build_id re q = get_build_id re p \<and> get_arch re q \<in> set (need_archs s) \<and>
    map_of (host_build_id_map s) (get_build_id re p) = None \<and>
    sections_score (get_sections re p) < sections_score (get_sections re q)"
  then have p: "get_build_id re p \<noteq> []" "get_arch re p \<in> set (need_archs s)"
    and q: "get_build_id re q \<noteq> []" "get_arch re q \<in> set (need_archs s)"
    and same: "get_build_id re q = get_build_id re p"
    and new: "map_of (host_build_id_map s) (get_build_id re p) = None"
    and less: "sections_score (get_sections re p) < sections_score (get_sections re q)"
    by simp_all
  have first: "map_of (host_build_id_map (add_native_lib_on_host re p n s)) (get_build_id re q)
      = Some \<lparr>path = p, name = unique_name_of n (repeat_count_of s n),
               score = sections_score (get_sections re p)\<rparr>"
    using entry_after_add [OF p, of n] new by (simp add: same)
  have q1: "get_arch re q \<in> set (need_archs (add_native_lib_on_host re p n s))"
    using q by simp
  show "map_of (host_build_id_map
                (add_native_lib_on_host re q m (add_native_lib_on_host re p n s)))
        (get_build_id re p) =
        Some \<lparr>path = q, name = unique_name_of n (repeat_count_of s n),
              score = sections_score (get_sections re q)\<rparr>"
    using entry_after_add [OF q(1) q1, of m] less by (simp add: first same [symmetric])
next
  assume a: "get_build_id re p \<noteq> [] \<and> get_arch re p \<in> set (need_archs s) \<and>
    get_build_id re q = get_build_id re p \<and> get_arch re q \<in> set (need_archs s) \<and>
    map_of (host_build_id_map s) (get_build_id re p) = None \<and>
    sections_score (get_sections re p) < sections_score (get_sections re q)"
  then have p: "get_build_id re p \<noteq> []" "get_arch re p \<in> set (need_archs s)"
    and q: "get_build_id re q \<noteq> []" "get_arch re q \<in> set (need_archs s)"
    and same: "get_build_id re q = get_build_id re p"
    and new: "map_of (host_build_id_map s) (get_build_id re q) = None"
    and less: "sections_score (get_sections re p) < sections_score (get_sections re q)"
    by simp_all
  have first: "map_of (host_build_id_map (add_native_lib_on_host re q m s)) (get_build_id re p)
      = Some \<lparr>path = q, name = unique_name_of m (repeat_count_of s m),
               score = sections_score (get_sections re q)\<rparr>"
    using entry_after_add [OF q, of m] new by (simp add: same)
  have p1: "get_arch re p \<in> set (need_archs (add_native_lib_on_host re q m s))"
    using p by simp
  show "map_of (host_build_id_map
                (add_native_lib_on_host re p n (add_native_lib_on_host re q m s)))
        (get_build_id re p) =
        Some \<lparr>path = q, name = unique_name_of m (repeat_count_of s m),
              score = sections_score (get_sections re q)\<rparr>"
    using entry_after_add [OF p(1) p1, of n] less by (simp add: first)
qed

theorem keep_higher_score_witness:
  "(get_build_id readelf_foo ''/libs/libfoo.so'' \<noteq> [] \<and>
    get_arch readelf_foo ''/libs/libfoo.so'' \<in> set (need_archs (NativeLibDownloader_init ''arm64'')) \<and>
    get_build_id readelf_foo ''/libs/subdir/libfoo.so'' = get_build_id readelf_foo ''/libs/libfoo.so'' \<and>
    get_arch readelf_foo ''/libs/subdir/libfoo.so''
      \<in> set (need_archs (NativeLibDownloader_init ''arm64'')) \<and>
    map_of (host_build_id_map (NativeLibDownloader_init ''arm64''))
      (get_build_id readelf_foo ''/libs/libfoo.so'') = None \<and>
    sections_score (get_sections readelf_foo ''/libs/libfoo.so'')
      < sections_score (get_sections readelf_foo ''/libs/subdir/libfoo.so'')) \<and>
   map_of (host_build_id_map
             (add_native_lib_on_host readelf_foo ''/libs/subdir/libfoo.so'' ''libfoo.so''
                (add_native_lib_on_host readelf_foo ''/libs/libfoo.so'' ''libfoo.so''
                   (NativeLibDownloader_init ''arm64'')))) ''A1'' =
     Some \<lparr>path = ''/libs/subdir/libfoo.so'', name = ''libfoo.so'', score = 3\<rparr> \<and>
   map_of (host_build_id_map
             (add_native_lib_on_host readelf_foo ''/libs/libfoo.so'' ''libfoo.so''
                (add_native_lib_on_host readelf_foo ''/libs/subdir/libfoo.so'' ''libfoo.so''
                   (NativeLibDownloader_init ''arm64'')))) ''A1'' =
     Some \<lparr>path = ''/libs/subdir/libfoo.so'', name = ''libfoo.so'', score = 3\<rparr>"
proof -
  note T = keep_higher_score [of readelf_foo "''/libs/libfoo.so''"
      "NativeLibDownloader_init ''arm64''" "''libfoo.so''" "''/libs/subdir/libfoo.so''"
      "''libfoo.so''"]
  have id: "get_build_id readelf_foo ''/libs/libfoo.so'' = ''A1''"
    by (simp add: readelf_foo_def)
  have sc: "sections_score (get_sections readelf_foo ''/libs/subdir/libfoo.so'') = 3"
    by (simp add: readelf_foo_def sections_score_def)
  have nm: "unique_name_of ''libfoo.so''
      (repeat_count_of (NativeLibDownloader_init ''arm64'') ''libfoo.so'') = ''libfoo.so''"
    by (simp add: unique_name_of_def repeat_count_of_def NativeLibDownloader_init_def)
  have h: "get_build_id readelf_foo ''/libs/libfoo.so'' \<noteq> [] \<and>
    get_arch readelf_foo ''/libs/libfoo.so'' \<in> set (need_archs (NativeLibDownloader_init ''arm64'')) \<and>
    get_build_id readelf_foo ''/libs/subdir/libfoo.so'' = get_build_id readelf_foo ''/libs/libfoo.so'' \<and>
    get_arch readelf_foo ''/libs/subdir/libfoo.so''
      \<in> set (need_archs (NativeLibDownloader_init ''arm64'')) \<and>
    map_of (host_build_id_map (NativeLibDownloader_init ''arm64''))
      (get_build_id readelf_foo ''/libs/libfoo.so'') = None \<and>
    sections_score (get_sections readelf_foo ''/libs/libfoo.so'')
      < sections_score (get_sections readelf_foo ''/libs/subdir/libfoo.so'')"
    by (simp add: readelf_foo_def NativeLibDownloader_init_def get_need_archs_def
        sections_score_def)
  have c: "map_of (host_build_id_map
             (add_native_lib_on_host readelf_foo ''/libs/subdir/libfoo.so'' ''libfoo.so''
                (add_native_lib_on_host readelf_foo ''/libs/libfoo.so'' ''libfoo.so''
                   (NativeLibDownloader_init ''arm64'')))) ''A1'' =
     Some \<lparr>path = ''/libs/subdir/libfoo.so'', name = ''libfoo.so'', score = 3\<rparr> \<and>
   map_of (host_build_id_map
             (add_native_lib_on_host readelf_foo ''/libs/libfoo.so'' ''libfoo.so''
                (add_native_lib_on_host readelf_foo ''/libs/subdir/libfoo.so'' ''libfoo.so''
                   (NativeLibDownloader_init ''arm64'')))) ''A1'' =
     Some \<lparr>path = ''/libs/subdir/libfoo.so'', name = ''libfoo.so'', score = 3\<rparr>"
    using T [THEN conjunct2, THEN mp, OF h] unfolding id sc nm .
  from h c show ?thesis by (rule conjI)
qed

section \<open>Names given by one scan\<close>

lemma str_nonempty [simp]: "str n \<noteq> []"
  by (subst str.simps) simp

lemma digit_in: "d < 10 \<Longrightarrow> ''0123456789'' ! d \<in> set ''0123456789''"
  by (rule nth_mem) simp

lemma set_str: "set (str n) \<subseteq> set ''0123456789''"
proof (induction n rule: str.induct)
  case (1 n)
  show ?case
  proof (cases "n < 10")
    case True
    then show ?thesis using digit_in [of n] by (subst str.simps) simp
  next
    case False
    have "n mod 10 < 10" by simp
    from digit_in [OF this] 1 [OF False] False show ?thesis
      by (subst str.simps) simp
  qed
qed

lemma str_no_char: "c \<notin> set ''0123456789'' \<Longrightarrow> c \<notin> set (str n)"
  using set_str [of n] by (rule contra_subsetD)

lemma digit_inj:
  "d < 10 \<Longrightarrow> d' < 10 \<Longrightarrow> ''0123456789'' ! d = ''0123456789'' ! d' \<Longrightarrow> d = d'"
  by (subst (asm) nth_eq_iff_index_eq) simp_all

lemma str_inj: "str n = str m \<Longrightarrow> n = m"
proof (induction n arbitrary: m rule: str.induct)
  case (1 n)
  have ne: "[] \<noteq> str k" for k
    by (rule not_sym) (rule str_nonempty)
  show ?case
  proof (cases "n < 10")
    case n: True
    show ?thesis
    proof (cases "m < 10")
      case True
      with n "1.prems" show ?thesis
        by (simp add: str.simps [of n] str.simps [of m] digit_inj)
    next
      case False
      with n "1.prems" show ?thesis
        by (simp add: str.simps [of n] str.simps [of m] ne)
    qed
  next
    case n: False
    show ?thesis
    proof (cases "m < 10")
      case True
      with n "1.prems" show ?thesis
        by (simp add: str.simps [of n] str.simps [of m])
    next
      case False
      with n "1.prems" have a: "str (n div 10) = str (m div 10)"
        and b: "''0123456789'' ! (n mod 10) = ''0123456789'' ! (m mod 10)"
        by (simp_all add: str.simps [of n] str.simps [of m])
      from "1.IH" [OF n a] have "n div 10 = m div 10" .
      moreover from b have "n mod 10 = m mod 10" by (intro digit_inj) simp_all
      ultimately have "n div 10 * 10 + n mod 10 = m div 10 * 10 + m mod 10" by simp
      then show ?thesis by simp
    qed
  qed
qed

lemma split_at_last_sep:
  assumes "xs @ c # ys = xs' @ c # ys'" and "c \<notin> set ys" and "c \<notin> set ys'"
  shows "xs = xs' \<and> ys = ys'"
proof -
  have "takeWhile (\<lambda>x. x \<noteq> c) (rev (xs @ c # ys)) = rev ys"
    using assms(2) by (auto simp add: takeWhile_tail)
  moreover have "takeWhile (\<lambda>x. x \<noteq> c) (rev (xs' @ c # ys')) = rev ys'"
    using assms(3) by (auto simp add: takeWhile_tail)
  ultimately have "rev ys = rev ys'" using assms(1) by simp
  then have "ys = ys'" by simp
  with assms(1) show ?thesis by simp
qed

lemma endswith_so_last: "endswith n ''.so'' \<Longrightarrow> n \<noteq> [] \<and> last n = CHR ''o''"
proof -
  assume a: "endswith n ''.so''"
  define k where "k = length n - length ''.so''"
  from a have d: "drop k n = ''.so''"
    by (simp add: endswith_def k_def)
  have "take k n @ drop k n = n"
    by (rule append_take_drop_id)
  then have eqn: "take k n @ ''.so'' = n"
    by (simp only: d)
  have e: "take k n @ ''.so'' \<noteq> [] \<and> last (take k n @ ''.so'') = CHR ''o''" by simp
  show ?thesis using e unfolding eqn .
qed

lemma unique_name_of_inj:
  assumes "endswith n ''.so''" and "endswith n' ''.so''"
    and "unique_name_of n k = unique_name_of n' k'"
  shows "n = n' \<and> k = k'"
proof -
  have suffixed: "n1 \<noteq> n2 @ CHR ''_'' # str j" if "endswith n1 ''.so''" for n1 n2 j
  proof
    assume eq: "n1 = n2 @ CHR ''_'' # str j"
    have "last (n2 @ CHR ''_'' # str j) = last (str j)" by simp
    with eq endswith_so_last [OF that] have o: "last (str j) = CHR ''o''" by simp
    have "CHR ''o'' \<notin> set (str j)" by (rule str_no_char) simp
    moreover have "last (str j) \<in> set (str j)" by simp
    ultimately show False by (simp only: o)
  qed
  have under: "CHR ''_'' \<notin> set (str j)" for j
    by (rule str_no_char) simp
  show ?thesis
  proof (cases "k = 0")
    case k: True
    show ?thesis
    proof (cases "k' = 0")
      case True
      with k assms(3) show ?thesis by (simp add: unique_name_of_def)
    next
      case False
      with k assms(3) have "n = n' @ CHR ''_'' # str k'" by (simp add: unique_name_of_def)
      with suffixed [OF assms(1), of n' k'] show ?thesis by (rule notE)
    qed
  next
    case k: False
    show ?thesis
    proof (cases "k' = 0")
      case True
      with k assms(3) have "n' = n @ CHR ''_'' # str k" by (simp add: unique_name_of_def)
      with suffixed [OF assms(2), of n k] show ?thesis by (rule notE)
    next
      case False
      with k assms(3) have eq: "n @ CHR ''_'' # str k = n' @ CHR ''_'' # str k'"
        by (simp add: unique_name_of_def)
      from split_at_last_sep [OF eq under under] have "n = n'" and "str k = str k'"
        by simp_all
      then show ?thesis by (simp add: str_inj)
    qed
  qed
qed

lemma names_update_known:
  "map_of h b = Some e \<Longrightarrow>
   map (\<lambda>(build_id, entry). name entry) (AList.update b (e\<lparr>path := p, score := sc\<rparr>) h) =
   map (\<lambda>(build_id, entry). name entry) h"
  by (induction h) (auto split: if_splits)

lemma repeat_count_after_update:
  "repeat_count_of (s\<lparr>name_count_map := AList.update n c (name_count_map s),
                      host_build_id_map := h\<rparr>) n' =
   (if n' = n then c else repeat_count_of s n')"
  by (simp add: repeat_count_of_def AList.update_conv')

lemma names_inv_add:
  assumes inv: "names_inv s" and so: "endswith n ''.so''"
  shows "names_inv (add_native_lib_on_host re p n s)"
proof (cases "get_build_id re p \<noteq> [] \<and> get_arch re p \<in> set (need_archs s)")
  case False
  then have "add_native_lib_on_host re p n s = s"
    by (auto simp add: add_native_lib_on_host_def Let_def)
  with inv show ?thesis by simp
next
  case acc: True
  then have a1: "get_build_id re p \<noteq> []" and a2: "get_arch re p \<in> set (need_archs s)"
    by simp_all
  show ?thesis
  proof (cases "map_of (host_build_id_map s) (get_build_id re p)")
    case (Some e)
    let ?s' = "s\<lparr>host_build_id_map :=
               AList.update (get_build_id re p)
                 (e\<lparr>path := p, score := sections_score (get_sections re p)\<rparr>)
                 (host_build_id_map s)\<rparr>"
    have "scanned_names ?s' = scanned_names s"
      using Some by (simp add: scanned_names_def names_update_known)
    moreover have "repeat_count_of ?s' = repeat_count_of s"
      by (simp add: repeat_count_of_def fun_eq_iff)
    ultimately have "names_inv ?s'"
      using inv by (simp add: names_inv_def)
    with inv show ?thesis
      by (simp add: add_known [OF a1 a2 Some])
  next
    case None
    let ?c = "repeat_count_of s n"
    let ?s' = "s\<lparr>name_count_map := AList.update n (?c + 1) (name_count_map s),
       host_build_id_map :=
         AList.update (get_build_id re p)
           \<lparr>path = p, name = unique_name_of n ?c,
            score = sections_score (get_sections re p)\<rparr>
           (host_build_id_map s)\<rparr>"
    from None have fresh: "get_build_id re p \<notin> fst ` set (host_build_id_map s)"
      by (simp add: map_of_eq_None_iff)
    have names: "scanned_names ?s' = scanned_names s @ [unique_name_of n ?c]"
      by (simp add: scanned_names_def update_fresh [OF fresh])
    have count: "repeat_count_of ?s' n' = (if n' = n then ?c + 1 else repeat_count_of s n')"
      for n'
      by (rule repeat_count_after_update)
    from inv have d: "distinct (scanned_names s)"
      and old: "\<And>x. x \<in> set (scanned_names s) \<Longrightarrow>
          \<exists>n' k. endswith n' ''.so'' \<and> k < repeat_count_of s n' \<and> x = unique_name_of n' k"
      by (simp_all add: names_inv_def)
    have new: "unique_name_of n ?c \<notin> set (scanned_names s)"
    proof
      assume "unique_name_of n ?c \<in> set (scanned_names s)"
      from old [OF this] obtain n' k where n': "endswith n' ''.so''"
        and k: "k < repeat_count_of s n'" and eq: "unique_name_of n ?c = unique_name_of n' k"
        by blast
      from unique_name_of_inj [OF so n' eq] have "n = n' \<and> ?c = k" .
      with k show False by auto
    qed
    have "\<exists>n' k. endswith n' ''.so'' \<and> k < repeat_count_of ?s' n' \<and> x = unique_name_of n' k"
      if x: "x \<in> set (scanned_names ?s')" for x
    proof (cases "x = unique_name_of n ?c")
      case True
      have "?c < repeat_count_of ?s' n" unfolding count by simp
      with so True show ?thesis by blast
    next
      case False
      with x names have "x \<in> set (scanned_names s)" by simp
      from old [OF this] obtain n' k where n': "endswith n' ''.so''"
        and k: "k < repeat_count_of s n'" and eq: "x = unique_name_of n' k"
        by blast
      from k have "k < repeat_count_of ?s' n'" unfolding count by auto
      with n' eq show ?thesis by blast
    qed
    with d new names have "names_inv ?s'"
      by (simp add: names_inv_def)
    then show ?thesis
      by (simp add: add_new [OF a1 a2 None])
  qed
qed

lemma names_inv_add_files: "names_inv s \<Longrightarrow> names_inv (add_files re root files s)"
  by (induction files arbitrary: s) (simp_all add: names_inv_add)

lemma names_inv_walk_dirs: "names_inv s \<Longrightarrow> names_inv (walk_dirs re walk s)"
  by (induction walk arbitrary: s) (auto simp add: names_inv_add_files)

lemma names_inv_collect: "names_inv (collect_native_libs_on_host re walk s)"
proof -
  have "names_inv (s\<lparr>host_build_id_map := []\<rparr>)"
    by (simp add: names_inv_def scanned_names_def)
  then show ?thesis
    by (simp add: collect_native_libs_on_host_def names_inv_walk_dirs)
qed

lemma liba_after_first:
  "add_native_lib_on_host readelf_by_path ''/libs/liba.so'' ''liba.so''
     (NativeLibDownloader_init ''arm64'') =
   \<lparr>need_archs = [''arm'', ''arm64''],
    host_build_id_map = [(''id:/libs/liba.so'', liba_first)],
    device_build_id_map = [],
    name_count_map = [(''liba.so'', 1)]\<rparr>"
  by (simp add: add_native_lib_on_host_def NativeLibDownloader_init_def get_need_archs_def
      readelf_by_path_def sections_score_def liba_first_def)

lemma liba_scan:
  "host_build_id_map
     (collect_native_libs_on_host readelf_by_path liba_walk (NativeLibDownloader_init ''arm64'')) =
   [(''id:/libs/liba.so'', liba_first), (''id:/libs/sub/liba.so'', liba_second)]"
  by (simp add: collect_native_libs_on_host_def liba_walk_def add_native_lib_on_host_def
      NativeLibDownloader_init_def get_need_archs_def readelf_by_path_def sections_score_def
      endswith_def os_path_join_def liba_first_def liba_second_def str.simps)

text \<open>
  C9. After a scan, whatever the state of the downloader before it, the names of the
  registry are pairwise distinct: two entries with different build ids have different
  names. Each name is the name of a scanned file (ending in \<^verbatim>\<open>.so\<close>), or such a name
  followed by \<^verbatim>\<open>_\<close> and a decimal counter. The counter is the number of entries
  created earlier under that file name: the first entry gets the bare name, the next ones
  \<^verbatim>\<open>_1\<close>, \<^verbatim>\<open>_2\<close> and so on, in the order of discovery (last part).
\<close>

theorem scan_names_distinct:
  "distinct (scanned_names (collect_native_libs_on_host re walk s)) \<and>
   (\<forall>b1 e1 b2 e2.
      (b1, e1) \<in> set (host_build_id_map (collect_native_libs_on_host re walk s)) \<and>
      (b2, e2) \<in> set (host_build_id_map (collect_native_libs_on_host re walk s)) \<and>
      b1 \<noteq> b2 \<longrightarrow> name e1 \<noteq> name e2) \<and>
   (\<forall>(b, e) \<in> set (host_build_id_map (collect_native_libs_on_host re walk s)).
      \<exists>n k. endswith n ''.so'' \<and> name e = unique_name_of n k) \<and>
   (get_build_id re p \<noteq> [] \<and> get_arch re p \<in> set (need_archs s0) \<and>
    map_of (host_build_id_map s0) (get_build_id re p) = None \<longrightarrow>
      map_of (host_build_id_map (add_native_lib_on_host re p n s0)) (get_build_id re p) =
        Some \<lparr>path = p,
              name = (if repeat_count_of s0 n = 0 then n
                      else n @ ''_'' @ str (repeat_count_of s0 n)),
              score = sections_score (get_sections re p)\<rparr> \<and>
      repeat_count_of (add_native_lib_on_host re p n s0) n = repeat_count_of s0 n + 1)"
proof -
  let ?S = "collect_native_libs_on_host re walk s"
  have inv: "names_inv ?S" by (rule names_inv_collect)
  then have d: "distinct (scanned_names ?S)" by (simp add: names_inv_def)
  have pair: "name e1 \<noteq> name e2"
    if "(b1, e1) \<in> set (host_build_id_map ?S) \<and> (b2, e2) \<in> set (host_build_id_map ?S) \<and>
        b1 \<noteq> b2" for b1 e1 b2 e2
  proof
    assume eq: "name e1 = name e2"
    from d have "inj_on (\<lambda>(build_id, entry). name entry) (set (host_build_id_map ?S))"
      by (simp add: scanned_names_def distinct_map)
    from inj_onD [OF this, of "(b1, e1)" "(b2, e2)"] eq that show False by simp
  qed
  have form: "\<exists>n k. endswith n ''.so'' \<and> name e = unique_name_of n k"
    if "(b, e) \<in> set (host_build_id_map ?S)" for b e
  proof -
    from that have mem: "name e \<in> set (scanned_names ?S)"
      by (force simp add: scanned_names_def)
    from inv have "\<forall>x \<in> set (scanned_names ?S).
        \<exists>n k. endswith n ''.so'' \<and> k < repeat_count_of ?S n \<and> x = unique_name_of n k"
      unfolding names_inv_def by (rule conjunct2)
    from this mem
    have "\<exists>n k. endswith n ''.so'' \<and> k < repeat_count_of ?S n \<and> name e = unique_name_of n k"
      by (rule bspec)
    then obtain n k where "endswith n ''.so''" and "name e = unique_name_of n k"
      by (elim exE conjE)
    then show ?thesis by (intro exI conjI)
  qed
  have step: "map_of (host_build_id_map (add_native_lib_on_host re p n s0)) (get_build_id re p) =
        Some \<lparr>path = p,
              name = (if repeat_count_of s0 n = 0 then n
                      else n @ ''_'' @ str (repeat_count_of s0 n)),
              score = sections_score (get_sections re p)\<rparr> \<and>
      repeat_count_of (add_native_lib_on_host re p n s0) n = repeat_count_of s0 n + 1"
    if "get_build_id re p \<noteq> [] \<and> get_arch re p \<in> set (need_archs s0) \<and>
        map_of (host_build_id_map s0) (get_build_id re p) = None"
  proof -
    from that have a: "get_build_id re p \<noteq> []" "get_arch re p \<in> set (need_archs s0)"
      "map_of (host_build_id_map s0) (get_build_id re p) = None" by simp_all
    show ?thesis
      by (simp add: add_new [OF a] AList.update_conv' repeat_count_after_update
          unique_name_of_def)
  qed
  show ?thesis
  proof (intro conjI)
    show "distinct (scanned_names ?S)" by (rule d)
    show "\<forall>b1 e1 b2 e2.
      (b1, e1) \<in> set (host_build_id_map ?S) \<and> (b2, e2) \<in> set (host_build_id_map ?S) \<and>
      b1 \<noteq> b2 \<longrightarrow> name e1 \<noteq> name e2"
      by (intro allI impI) (rule pair)
    show "\<forall>(b, e) \<in> set (host_build_id_map ?S).
      \<exists>n k. endswith n ''.so'' \<and> name e = unique_name_of n k"
    proof (rule ballI)
      fix x assume x: "x \<in> set (host_build_id_map ?S)"
      obtain b e where xe: "x = (b, e)" by (cases x)
      from form [of b e] x xe
      show "case x of (b, e) \<Rightarrow> \<exists>n k. endswith n ''.so'' \<and> name e = unique_name_of n k"
        by simp
    qed
    show "get_build_id re p \<noteq> [] \<and> get_arch re p \<in> set (need_archs s0) \<and>
        map_of (host_build_id_map s0) (get_build_id re p) = None \<longrightarrow>
      map_of (host_build_id_map (add_native_lib_on_host re p n s0)) (get_build_id re p) =
        Some \<lparr>path = p,
              name = (if repeat_count_of s0 n = 0 then n
                      else n @ ''_'' @ str (repeat_count_of s0 n)),
              score = sections_score (get_sections re p)\<rparr> \<and>
      repeat_count_of (add_native_lib_on_host re p n s0) n = repeat_count_of s0 n + 1"
      by (intro impI) (rule step)
  qed
qed

theorem scan_names_distinct_witness:
  "((''id:/libs/liba.so'', liba_first)
      \<in> set (host_build_id_map (collect_native_libs_on_host readelf_by_path liba_walk
                (NativeLibDownloader_init ''arm64''))) \<and>
    (''id:/libs/sub/liba.so'', liba_second)
      \<in> set (host_build_id_map (collect_native_libs_on_host readelf_by_path liba_walk
                (NativeLibDownloader_init ''arm64''))) \<and>
    ''id:/libs/liba.so'' \<noteq> ''id:/libs/sub/liba.so'') \<and>
   name liba_first \<noteq> name liba_second \<and>
   (get_build_id readelf_by_path ''/libs/sub/liba.so'' \<noteq> [] \<and>
    get_arch readelf_by_path ''/libs/sub/liba.so''
      \<in> set (need_archs (add_native_lib_on_host readelf_by_path ''/libs/liba.so'' ''liba.so''
                 (NativeLibDownloader_init ''arm64''))) \<and>
    map_of (host_build_id_map (add_native_lib_on_host readelf_by_path ''/libs/liba.so''
              ''liba.so'' (NativeLibDownloader_init ''arm64'')))
      (get_build_id readelf_by_path ''/libs/sub/liba.so'') = None) \<and>
   map_of (host_build_id_map
             (add_native_lib_on_host readelf_by_path ''/libs/sub/liba.so'' ''liba.so''
                (add_native_lib_on_host readelf_by_path ''/libs/liba.so'' ''liba.so''
                   (NativeLibDownloader_init ''arm64''))))
     (get_build_id readelf_by_path ''/libs/sub/liba.so'') =
     Some \<lparr>path = ''/libs/sub/liba.so'', name = ''liba.so_1'', score = 2\<rparr>"
proof -
  let ?s0 = "add_native_lib_on_host readelf_by_path ''/libs/liba.so'' ''liba.so''
               (NativeLibDownloader_init ''arm64'')"
  note T = scan_names_distinct [of readelf_by_path liba_walk "NativeLibDownloader_init ''arm64''"
      "''/libs/sub/liba.so''" ?s0 "''liba.so''"]
  have h1: "(''id:/libs/liba.so'', liba_first)
      \<in> set (host_build_id_map (collect_native_libs_on_host readelf_by_path liba_walk
                (NativeLibDownloader_init ''arm64''))) \<and>
    (''id:/libs/sub/liba.so'', liba_second)
      \<in> set (host_build_id_map (collect_native_libs_on_host readelf_by_path liba_walk
                (NativeLibDownloader_init ''arm64''))) \<and>
    ''id:/libs/liba.so'' \<noteq> ''id:/libs/sub/liba.so''"
    by (simp add: liba_scan)
  have c1: "name liba_first \<noteq> name liba_second"
    using T [THEN conjunct2, THEN conjunct1, THEN spec, THEN spec, THEN spec, THEN spec,
        THEN mp, OF h1] .
  have h2: "get_build_id readelf_by_path ''/libs/sub/liba.so'' \<noteq> [] \<and>
    get_arch readelf_by_path ''/libs/sub/liba.so'' \<in> set (need_archs ?s0) \<and>
    map_of (host_build_id_map ?s0) (get_build_id readelf_by_path ''/libs/sub/liba.so'') = None"
    by (simp add: liba_after_first) (simp add: readelf_by_path_def)
  have rc: "repeat_count_of ?s0 ''liba.so'' = 1"
    by (simp add: liba_after_first repeat_count_of_def)
  have s1: "str (Suc 0) = ''1''"
    by (simp add: str.simps)
  have sc: "sections_score (get_sections readelf_by_path ''/libs/sub/liba.so'') = 2"
    by (simp add: readelf_by_path_def sections_score_def)
  have c2: "map_of (host_build_id_map
             (add_native_lib_on_host readelf_by_path ''/libs/sub/liba.so'' ''liba.so'' ?s0))
     (get_build_id readelf_by_path ''/libs/sub/liba.so'') =
     Some \<lparr>path = ''/libs/sub/liba.so'', name = ''liba.so_1'', score = 2\<rparr>"
    using T [THEN conjunct2, THEN conjunct2, THEN conjunct2, THEN mp, OF h2, THEN conjunct1]
    unfolding rc sc by (simp add: s1)
  from h1 show ?thesis
    by (rule conjI) (intro conjI c1 h2 c2)
qed

section \<open>Scanning the same directory again\<close>

lemma liba_first_scan:
  "collect_native_libs_on_host readelf_by_path liba_walk (NativeLibDownloader_init ''arm64'') =
   \<lparr>need_archs = [''arm'', ''arm64''],
    host_build_id_map =
      [(''id:/libs/liba.so'', liba_first), (''id:/libs/sub/liba.so'', liba_second)],
    device_build_id_map = [],
    name_count_map = [(''liba.so'', 2)]\<rparr>"
  by (simp add: collect_native_libs_on_host_def liba_walk_def add_native_lib_on_host_def
      NativeLibDownloader_init_def get_need_archs_def readelf_by_path_def sections_score_def
      endswith_def os_path_join_def liba_first_def liba_second_def str.simps)

text \<open>
  Two scans that start with the same counters, as the scans of two new downloaders do,
  give the same names: the scan reads neither the host registry nor the device registry
  it starts with.
\<close>

lemma add_native_lib_device_map:
  "add_native_lib_on_host re p n (s\<lparr>device_build_id_map := d\<rparr>) =
   (add_native_lib_on_host re p n s)\<lparr>device_build_id_map := d\<rparr>"
  by (simp add: add_native_lib_on_host_def Let_def split: option.splits)

lemma add_files_device_map:
  "add_files re root files (s\<lparr>device_build_id_map := d\<rparr>) =
   (add_files re root files s)\<lparr>device_build_id_map := d\<rparr>"
  by (induction files arbitrary: s) (simp_all add: add_native_lib_device_map)

lemma walk_dirs_device_map:
  "walk_dirs re walk (s\<lparr>device_build_id_map := d\<rparr>) =
   (walk_dirs re walk s)\<lparr>device_build_id_map := d\<rparr>"
  by (induction re walk s rule: walk_dirs.induct) (simp_all add: add_files_device_map)

lemma rescan_same_counters:
  assumes "need_archs s = need_archs s'" and "name_count_map s = name_count_map s'"
  shows "host_build_id_map (collect_native_libs_on_host re walk s) =
         host_build_id_map (collect_native_libs_on_host re walk s')"
proof -
  have "s\<lparr>host_build_id_map := []\<rparr> =
        (s'\<lparr>host_build_id_map := []\<rparr>)\<lparr>device_build_id_map := device_build_id_map s\<rparr>"
    using assms by simp
  then show ?thesis
    by (simp only: collect_native_libs_on_host_def walk_dirs_device_map)
      simp
qed

text \<open>
  C5. The program makes a new downloader for every sync, so each of its scans starts with no
  counters. Two scans of the same directory, walked in the same order with the same tool,
  by downloaders that start with the same architectures and the same counters give every
  build id the same entry, and so the same name, whatever registries the downloaders held
  before.
\<close>

theorem rescan_same_names:
  assumes "need_archs s = need_archs s'" and "name_count_map s = name_count_map s'"
  shows "host_build_id_map (collect_native_libs_on_host re walk s') =
           host_build_id_map (collect_native_libs_on_host re walk s) \<and>
         (\<forall>build_id.
            map_option name
              (map_of (host_build_id_map (collect_native_libs_on_host re walk s')) build_id) =
            map_option name
              (map_of (host_build_id_map (collect_native_libs_on_host re walk s)) build_id)) \<and>
         scanned_names (collect_native_libs_on_host re walk s') =
           scanned_names (collect_native_libs_on_host re walk s)"
proof -
  have "host_build_id_map (collect_native_libs_on_host re walk s') =
        host_build_id_map (collect_native_libs_on_host re walk s)"
    using assms by (rule rescan_same_counters [symmetric])
  then show ?thesis
    by (simp add: scanned_names_def)
qed

theorem rescan_same_names_witness:
  "need_archs (NativeLibDownloader_init ''arm64'') =
     need_archs ((NativeLibDownloader_init ''arm64'')
        \<lparr>host_build_id_map := [(''B2'', lib2_entry)],
         device_build_id_map := [(''B1'', ''lib1.so'')]\<rparr>) \<and>
   name_count_map (NativeLibDownloader_init ''arm64'') =
     name_count_map ((NativeLibDownloader_init ''arm64'')
        \<lparr>host_build_id_map := [(''B2'', lib2_entry)],
         device_build_id_map := [(''B1'', ''lib1.so'')]\<rparr>) \<and>
   scanned_names
     (collect_native_libs_on_host readelf_by_path liba_walk
        (NativeLibDownloader_init ''arm64'')) = [''liba.so'', ''liba.so_1''] \<and>
   scanned_names
     (collect_native_libs_on_host readelf_by_path liba_walk
        ((NativeLibDownloader_init ''arm64'')
           \<lparr>host_build_id_map := [(''B2'', lib2_entry)],
            device_build_id_map := [(''B1'', ''lib1.so'')]\<rparr>)) = [''liba.so'', ''liba.so_1'']"
proof -
  let ?s = "NativeLibDownloader_init ''arm64''"
  let ?s' = "?s\<lparr>host_build_id_map := [(''B2'', lib2_entry)],
                 device_build_id_map := [(''B1'', ''lib1.so'')]\<rparr>"
  have h1: "need_archs ?s = need_archs ?s'" by simp
  have h2: "name_count_map ?s = name_count_map ?s'" by simp
  have first: "scanned_names (collect_native_libs_on_host readelf_by_path liba_walk ?s) =
      [''liba.so'', ''liba.so_1'']"
    unfolding liba_first_scan by (simp add: scanned_names_def liba_first_def liba_second_def)
  note T = rescan_same_names [OF h1 h2, of readelf_by_path liba_walk]
  have second: "scanned_names (collect_native_libs_on_host readelf_by_path liba_walk ?s') =
      [''liba.so'', ''liba.so_1'']"
    unfolding T [THEN conjunct2, THEN conjunct2] by (rule first)
  show ?thesis
    by (intro conjI h1 h2 first second)
qed

text \<open>
  The hypothesis on the counters is needed. The scan empties the host registry but keeps the
  counters of the file names, so a downloader that has scanned already and scans the same
  directory again numbers the names onward. The program does not do so:
  \<^verbatim>\<open>_download_native_libs\<close> scans once, with a new downloader.
\<close>

lemma rescan_with_used_counters:
  "scanned_names
     (collect_native_libs_on_host readelf_by_path liba_walk
        (NativeLibDownloader_init ''arm64'')) = [''liba.so'', ''liba.so_1''] \<and>
   scanned_names
     (collect_native_libs_on_host readelf_by_path liba_walk
        (collect_native_libs_on_host readelf_by_path liba_walk
           (NativeLibDownloader_init ''arm64''))) = [''liba.so_2'', ''liba.so_3''] \<and>
   map (\<lambda>(build_id, entry). build_id)
     (host_build_id_map
        (collect_native_libs_on_host readelf_by_path liba_walk
           (collect_native_libs_on_host readelf_by_path liba_walk
              (NativeLibDownloader_init ''arm64'')))) =
   map (\<lambda>(build_id, entry). build_id)
     (host_build_id_map
        (collect_native_libs_on_host readelf_by_path liba_walk
           (NativeLibDownloader_init ''arm64'')))"
  unfolding liba_first_scan
  by (simp add: scanned_names_def collect_native_libs_on_host_def liba_walk_def
      add_native_lib_on_host_def readelf_by_path_def sections_score_def
      endswith_def os_path_join_def liba_first_def liba_second_def str.simps)

end
